theory Spec2Isabelle
  imports Complex_Main
begin

section \<open>Time integration and staggered coupling in gsElasticity\<close>

text \<open>
  A shallow embedding of \<^verbatim>\<open>gsNsTimeIntegrator.hpp\<close> (the fluid time integrator), of
  \<^verbatim>\<open>gsMassAssembler::assemble\<close> and \<^verbatim>\<open>gsMassAssembler::eliminateFixedDofs\<close>, and of
  the coupling loop of the one-way FSI example (\<^verbatim>\<open>main\<close> of the flapping-beam benchmark).

  The scalar type \<^verbatim>\<open>real_t\<close> is modelled by the HOL reals: arithmetic is exact, rounding is
  not modelled. Indices (\<^verbatim>\<open>index_t\<close>) that count rows, columns or patches are naturals.
  Every \<^verbatim>\<open>GISMO_ENSURE\<close> of the source is an error value; a patch index outside a
  multi-patch object is an error value as well.
\<close>

subsection \<open>Vectors, sparse matrices, multi-patch coefficient fields\<close>

type_synonym gsVector = "real list"

text \<open>
  A sparse matrix is its dimensions and its coefficient function; entries that are not
  stored are zero. Eigen checks the dimensions of operands by assertions only, so the
  operations below are total and say what they return at every index.
\<close>

record gsSparseMatrix =
  nrows :: nat
  ncols :: nat
  coeff :: "nat \<Rightarrow> nat \<Rightarrow> real"

text \<open>A multi-patch field: one coefficient vector per patch.\<close>

type_synonym gsMultiPatch = "gsVector list"

definition vscale :: "real \<Rightarrow> gsVector \<Rightarrow> gsVector" where
  "vscale c v = map ((*) c) v"

definition vadd :: "gsVector \<Rightarrow> gsVector \<Rightarrow> gsVector" where
  "vadd u v = map2 (+) u v"

definition vsub :: "gsVector \<Rightarrow> gsVector \<Rightarrow> gsVector" where
  "vsub u v = map2 (-) u v"

text \<open>\<^verbatim>\<open>v.middleRows(0,n) += w\<close> and \<^verbatim>\<open>v.middleRows(0,n) -= w\<close>.\<close>

definition middleRows_add :: "nat \<Rightarrow> gsVector \<Rightarrow> gsVector \<Rightarrow> gsVector" where
  "middleRows_add n v w = vadd (take n v) w @ drop n v"

definition middleRows_sub :: "nat \<Rightarrow> gsVector \<Rightarrow> gsVector \<Rightarrow> gsVector" where
  "middleRows_sub n v w = vsub (take n v) w @ drop n v"

definition mscale :: "real \<Rightarrow> gsSparseMatrix \<Rightarrow> gsSparseMatrix" where
  "mscale c A = A\<lparr>coeff := \<lambda>i j. c * coeff A i j\<rparr>"

text \<open>\<^verbatim>\<open>A += B\<close>: the dimensions of \<open>A\<close> stay.\<close>

definition madd :: "gsSparseMatrix \<Rightarrow> gsSparseMatrix \<Rightarrow> gsSparseMatrix" where
  "madd A B = A\<lparr>coeff := \<lambda>i j. coeff A i j + coeff B i j\<rparr>"

text \<open>\<^verbatim>\<open>A.block(i0,j0,r,c)\<close>.\<close>

definition block :: "gsSparseMatrix \<Rightarrow> nat \<Rightarrow> nat \<Rightarrow> nat \<Rightarrow> nat \<Rightarrow> gsSparseMatrix" where
  "block A i0 j0 r c =
     \<lparr>nrows = r, ncols = c,
      coeff = \<lambda>i j. if i < r \<and> j < c then coeff A (i0 + i) (j0 + j) else 0\<rparr>"

text \<open>
  \<^verbatim>\<open>A.conservativeResize(r,c)\<close> of a sparse matrix: the entries inside both the old and
  the new dimensions are kept, the others are zero.
\<close>

definition conservativeResize :: "nat \<Rightarrow> nat \<Rightarrow> gsSparseMatrix \<Rightarrow> gsSparseMatrix" where
  "conservativeResize r c A =
     \<lparr>nrows = r, ncols = c,
      coeff = \<lambda>i j. if i < r \<and> i < nrows A \<and> j < c \<and> j < ncols A then coeff A i j else 0\<rparr>"

text \<open>\<^verbatim>\<open>A.leftCols(n) += B\<close>.\<close>

definition leftCols_add :: "nat \<Rightarrow> gsSparseMatrix \<Rightarrow> gsSparseMatrix \<Rightarrow> gsSparseMatrix" where
  "leftCols_add n A B = A\<lparr>coeff := \<lambda>i j. if j < n then coeff A i j + coeff B i j else coeff A i j\<rparr>"

text \<open>The product of a matrix and a column vector.\<close>

definition matvec :: "gsSparseMatrix \<Rightarrow> gsVector \<Rightarrow> gsVector" where
  "matvec A x =
     map (\<lambda>i. \<Sum>j\<leftarrow>[0..<min (ncols A) (length x)]. coeff A i j * x ! j) [0..<nrows A]"

subsection \<open>Errors\<close>

datatype error =
    NoInitialConditions   \<comment> \<open>\<^verbatim>\<open>"No initial conditions provided!"\<close>\<close>
  | NoStateSaved          \<comment> \<open>\<^verbatim>\<open>"No state saved!"\<close>\<close>
  | MassNotAssembled      \<comment> \<open>\<^verbatim>\<open>"Mass matrix not assembled!"\<close>\<close>
  | PatchOutOfRange       \<comment> \<open>\<^verbatim>\<open>patch(i)\<close> with \<open>i\<close> outside the multi-patch object\<close>

definition thenE :: "error + 'a \<Rightarrow> ('a \<Rightarrow> error + 'b) \<Rightarrow> error + 'b" where
  "thenE r f = (case r of Inl e \<Rightarrow> Inl e | Inr x \<Rightarrow> f x)"

subsection \<open>The assemblers, as far as the integrator sees them\<close>

datatype ns_assembly = ossen | newton_next | other_assembly

datatype time_integration = implicit_nonlinear | implicit_linear | other_scheme

text \<open>
  \<^verbatim>\<open>gsNsAssembler\<close>: the cached system (\<^verbatim>\<open>matrix()\<close>, \<^verbatim>\<open>rhs()\<close>), the fixed degrees of
  freedom (\<^verbatim>\<open>allFixedDofs()\<close>), the number of free degrees of freedom (\<^verbatim>\<open>numDofs()\<close>)
  and the option \<^verbatim>\<open>"Assembly"\<close>.
\<close>

record stiff_assembler =
  stiff_matrix :: gsSparseMatrix
  stiff_rhs :: gsVector
  stiff_fixedDofs :: "gsVector list"
  stiff_numDofs :: nat
  opt_Assembly :: ns_assembly

text \<open>\<^verbatim>\<open>gsMassAssembler\<close>.\<close>

record mass_assembler =
  mass_matrix :: gsSparseMatrix
  mass_rhs :: gsVector
  mass_fixedDofs :: "gsVector list"
  mass_numDofs :: nat
  assembledFlag :: bool
  eliminationMatrix :: gsSparseMatrix

text \<open>
  The parts of the library whose code is outside this development are parameters: the
  element-level assembly of the Navier-Stokes system, the construction of the velocity and
  pressure fields from a solution vector, the mass visitor, the LU factorisation and the
  stopping criterion of the nonlinear solver.
\<close>

record ns_env =
  stiffAssembleSol :: "stiff_assembler \<Rightarrow> gsVector \<Rightarrow> gsVector list \<Rightarrow> gsSparseMatrix \<times> gsVector"
  stiffAssembleVP :: "stiff_assembler \<Rightarrow> gsMultiPatch \<Rightarrow> gsMultiPatch \<Rightarrow> gsSparseMatrix \<times> gsVector"
  constructSolution :: "stiff_assembler \<Rightarrow> gsVector \<Rightarrow> gsVector list \<Rightarrow> gsMultiPatch \<times> gsMultiPatch"
  massVisitor :: "mass_assembler \<Rightarrow> gsSparseMatrix \<times> gsSparseMatrix"
  luSolve :: "gsSparseMatrix \<Rightarrow> gsVector \<Rightarrow> gsVector"
  maxIters :: nat
  converged :: "real \<Rightarrow> real \<Rightarrow> nat \<Rightarrow> gsVector \<Rightarrow> gsVector \<Rightarrow> gsVector \<Rightarrow> bool"

text \<open>
  \<^verbatim>\<open>gsMassAssembler::assemble\<close>: the visitor fills the mass matrix and the elimination
  matrix, the right-hand side is zero, the flag is set.
\<close>

definition mass_assemble :: "ns_env \<Rightarrow> mass_assembler \<Rightarrow> mass_assembler" where
  "mass_assemble E m =
     (let (M, El) = massVisitor E m
      in m\<lparr>mass_matrix := M, mass_rhs := replicate (mass_numDofs m) 0,
           eliminationMatrix := El, assembledFlag := True\<rparr>)"

text \<open>\<^verbatim>\<open>gsMassAssembler::eliminateFixedDofs\<close>.\<close>

definition eliminateFixedDofs :: "mass_assembler \<Rightarrow> error + mass_assembler" where
  "eliminateFixedDofs m =
     (if \<not> assembledFlag m then Inl MassNotAssembled
      else Inr (m\<lparr>mass_rhs := vscale (- 1) (matvec (eliminationMatrix m) (concat (mass_fixedDofs m)))\<rparr>))"

subsection \<open>The state of a gsNsTimeIntegrator\<close>

record ns_integrator =
  stiffAssembler :: stiff_assembler
  massAssembler :: mass_assembler
  velocityALE :: gsMultiPatch
  patchesALE :: "(nat \<times> nat) list"
  initialized :: bool
  opt_Scheme :: time_integration
  opt_Theta :: real
  opt_AbsTol :: real
  opt_RelTol :: real
  m_ddof :: "gsVector list"
  numIters :: nat
  hasSavedState :: bool
  solVector :: gsVector
  oldSolVector :: gsVector
  oldTimeStep :: real
  tStep :: real
  flagALE :: bool
  constRHS :: gsVector
  m_system_matrix :: gsSparseMatrix
  m_system_rhs :: gsVector
  velVecSaved :: gsVector
  oldVecSaved :: gsVector
  massRhsSaved :: gsVector
  stiffRhsSaved :: gsVector
  stiffMatrixSaved :: gsSparseMatrix
  ddofsSaved :: "gsVector list"

definition emptyMatrix :: gsSparseMatrix where
  "emptyMatrix = \<lparr>nrows = 0, ncols = 0, coeff = \<lambda>i j. 0\<rparr>"

text \<open>
  The constructor with \<^verbatim>\<open>defaultOptions()\<close>. The members it does not set are
  default-constructed (empty) matrices; the scalars it leaves indeterminate are zero here.
\<close>

definition gsNsTimeIntegrator ::
  "stiff_assembler \<Rightarrow> mass_assembler \<Rightarrow> gsMultiPatch \<Rightarrow> (nat \<times> nat) list \<Rightarrow> ns_integrator" where
  "gsNsTimeIntegrator stiffAssembler0 massAssembler0 ALEvelocity ALEpatches =
     \<lparr>stiffAssembler = stiffAssembler0, massAssembler = massAssembler0,
      velocityALE = ALEvelocity, patchesALE = ALEpatches,
      initialized = False,
      opt_Scheme = implicit_nonlinear, opt_Theta = 1 / 2,
      opt_AbsTol = 1 / 10 ^ 10, opt_RelTol = 1 / 10 ^ 7,
      m_ddof = stiff_fixedDofs stiffAssembler0,
      numIters = 0,
      hasSavedState = False,
      solVector = [], oldSolVector = [], oldTimeStep = 0, tStep = 0, flagALE = False,
      constRHS = [], m_system_matrix = emptyMatrix, m_system_rhs = [],
      velVecSaved = [], oldVecSaved = [], massRhsSaved = [], stiffRhsSaved = [],
      stiffMatrixSaved = emptyMatrix, ddofsSaved = []\<rparr>"

subsection \<open>initialize\<close>

definition initialize :: "ns_env \<Rightarrow> ns_integrator \<Rightarrow> error + ns_integrator" where
  "initialize E s =
     (if length (solVector s) \<noteq> stiff_numDofs (stiffAssembler s) then Inl NoInitialConditions
      else
        let (A, f) = stiffAssembleSol E (stiffAssembler s) (solVector s) (m_ddof s);
            stiff' = (stiffAssembler s)\<lparr>stiff_matrix := A, stiff_rhs := f\<rparr>;
            mass1 = (massAssembler s)\<lparr>mass_fixedDofs := m_ddof s\<rparr>;
            mass2 = (if \<not> assembledFlag mass1 then mass_assemble E mass1 else mass1)
        in Inr (s\<lparr>stiffAssembler := stiff', massAssembler := mass2,
                  oldSolVector := solVector s, oldTimeStep := 1, initialized := True\<rparr>))"

subsection \<open>The ALE correction and the blended system matrix\<close>

text \<open>
  \<^verbatim>\<open>for (auto &it : *patchesALE)
      velocity.patch(it.first).coefs() -= velocityALE->patch(it.second).coefs();\<close>
  (the same loop stands in \<^verbatim>\<open>implicitLinear\<close> and in \<^verbatim>\<open>assemble\<close>).
\<close>

fun subtractALE :: "gsMultiPatch \<Rightarrow> (nat \<times> nat) list \<Rightarrow> gsMultiPatch \<Rightarrow> error + gsMultiPatch" where
  "subtractALE velALE [] velocity = Inr velocity"
| "subtractALE velALE (it # its) velocity =
     (if fst it < length velocity \<and> snd it < length velALE
      then subtractALE velALE its (velocity[fst it := vsub (velocity ! fst it) (velALE ! snd it)])
      else Inl PatchOutOfRange)"

text \<open>
  The block surgery on the system matrix (the same six lines stand in \<^verbatim>\<open>implicitLinear\<close>
  and in \<^verbatim>\<open>assemble\<close>): \<open>sysM\<close> is \<^verbatim>\<open>tStep*stiffAssembler.matrix()\<close>.
\<close>

definition blendVelocityBlock ::
  "real \<Rightarrow> nat \<Rightarrow> nat \<Rightarrow> gsSparseMatrix \<Rightarrow> gsSparseMatrix \<Rightarrow> gsSparseMatrix" where
  "blendVelocityBlock theta numDofsVel numDofs massM sysM =
     (let tempVelocityBlock = block sysM 0 0 numDofsVel numDofsVel;
          tempVelocityBlock = mscale (theta - 1) tempVelocityBlock;
          tempVelocityBlock = madd tempVelocityBlock massM;
          tempVelocityBlock = conservativeResize numDofs numDofsVel tempVelocityBlock
      in leftCols_add numDofsVel sysM tempVelocityBlock)"

subsection \<open>assemble: the system of one nonlinear iteration\<close>

text \<open>
  The third parameter of the source, \<^verbatim>\<open>assembleMatrix\<close>, is not read by the body and is
  left out; the source returns \<^verbatim>\<open>true\<close> always.
\<close>

definition assemble ::
  "ns_env \<Rightarrow> gsVector \<Rightarrow> gsVector list \<Rightarrow> ns_integrator \<Rightarrow> error + ns_integrator" where
  "assemble E solutionVector fixedDoFs s =
     (let theta = opt_Theta s;
          (velocity, pressure) = constructSolution E (stiffAssembler s) solutionVector fixedDoFs
      in thenE (if flagALE s then subtractALE (velocityALE s) (patchesALE s) velocity
                else Inr velocity)
           (\<lambda>velocity.
              let (A, f) = stiffAssembleVP E (stiffAssembler s) velocity pressure;
                  stiff' = (stiffAssembler s)\<lparr>stiff_matrix := A, stiff_rhs := f\<rparr>;
                  numDofsVel = mass_numDofs (massAssembler s)
              in Inr (s\<lparr>stiffAssembler := stiff',
                        m_system_matrix :=
                          blendVelocityBlock theta numDofsVel (stiff_numDofs stiff')
                            (mass_matrix (massAssembler s)) (mscale (tStep s) A),
                        m_system_rhs := vadd (vscale (tStep s * theta) f) (constRHS s)\<rparr>)))"

subsection \<open>saveState and recoverState\<close>

definition saveState :: "ns_env \<Rightarrow> ns_integrator \<Rightarrow> error + ns_integrator" where
  "saveState E s =
     thenE (if \<not> initialized s then initialize E s else Inr s)
       (\<lambda>s. Inr (s\<lparr>velVecSaved := solVector s,
                    oldVecSaved := oldSolVector s,
                    massRhsSaved := mass_rhs (massAssembler s),
                    stiffRhsSaved := stiff_rhs (stiffAssembler s),
                    stiffMatrixSaved := stiff_matrix (stiffAssembler s),
                    ddofsSaved := m_ddof s,
                    hasSavedState := True\<rparr>))"

text \<open>
  \<^verbatim>\<open>setRHS\<close> and \<^verbatim>\<open>setMatrix\<close> of the assemblers overwrite the cached right-hand side and
  matrix.
\<close>

definition recoverState :: "ns_integrator \<Rightarrow> error + ns_integrator" where
  "recoverState s =
     (if \<not> hasSavedState s then Inl NoStateSaved
      else Inr (s\<lparr>solVector := velVecSaved s,
                  oldSolVector := oldVecSaved s,
                  massAssembler := (massAssembler s)\<lparr>mass_rhs := massRhsSaved s\<rparr>,
                  stiffAssembler := (stiffAssembler s)
                     \<lparr>stiff_matrix := stiffMatrixSaved s, stiff_rhs := stiffRhsSaved s\<rparr>,
                  m_ddof := ddofsSaved s\<rparr>))"

subsection \<open>The nonlinear solver\<close>

text \<open>
  Modelled from the spec: \<^verbatim>\<open>gsIterative::solve\<close>, whose code is not among the sources. The
  solver repeatedly assembles the system at the current trial solution (through
  \<open>assemble\<close> of the integrator it was given), solves the linear system, replaces the trial
  solution (iteration type \<^verbatim>\<open>next\<close> with the LU solver, as \<^verbatim>\<open>implicitNonlinear\<close> selects
  them) and evaluates the stopping criterion; it stops when the criterion holds or after
  \<open>maxIters\<close> iterations. The result is the final trial solution, the number of iterations,
  the integrator after the last assembly, and, for each iteration in order, the trial
  solution it assembled at with the integrator as it stood right after that assembly.
\<close>

fun gsIterative_solve ::
  "ns_env \<Rightarrow> nat \<Rightarrow> nat \<Rightarrow> gsVector \<Rightarrow> gsVector list \<Rightarrow> ns_integrator
     \<Rightarrow> (gsVector \<times> ns_integrator) list
     \<Rightarrow> error + (gsVector \<times> nat \<times> ns_integrator \<times> (gsVector \<times> ns_integrator) list)" where
  "gsIterative_solve E 0 k x fixedDoFs s tr = Inr (x, k, s, tr)"
| "gsIterative_solve E (Suc n) k x fixedDoFs s tr =
     (case assemble E x fixedDoFs s of
        Inl e \<Rightarrow> Inl e
      | Inr s' \<Rightarrow>
          let x' = luSolve E (m_system_matrix s') (m_system_rhs s')
          in if converged E (opt_AbsTol s') (opt_RelTol s') (Suc k) x x' (m_system_rhs s')
             then Inr (x', Suc k, s', tr @ [(x, s')])
             else gsIterative_solve E n (Suc k) x' fixedDoFs s' (tr @ [(x, s')]))"

subsection \<open>implicitNonlinear\<close>

text \<open>
  The part of \<^verbatim>\<open>implicitNonlinear\<close> before the solver is constructed: the option
  \<^verbatim>\<open>"Assembly"\<close> and the constant part of the right-hand side.
\<close>

definition computeConstRHS :: "ns_integrator \<Rightarrow> error + ns_integrator" where
  "computeConstRHS s =
     (let stiff1 = (stiffAssembler s)\<lparr>opt_Assembly := newton_next\<rparr>;
          theta = opt_Theta s;
          numDofsVel = mass_numDofs (massAssembler s);
          c = vscale (tStep s * (1 - theta)) (stiff_rhs stiff1);
          c = middleRows_sub numDofsVel c
                (matvec (mscale (tStep s * (1 - theta))
                           (block (stiff_matrix stiff1) 0 0 numDofsVel numDofsVel))
                        (take numDofsVel (solVector s)));
          c = middleRows_add numDofsVel c
                (matvec (mass_matrix (massAssembler s)) (take numDofsVel (solVector s)));
          c = middleRows_sub numDofsVel c (mass_rhs (massAssembler s))
      in thenE (eliminateFixedDofs ((massAssembler s)\<lparr>mass_fixedDofs := stiff_fixedDofs stiff1\<rparr>))
           (\<lambda>mass'. Inr (s\<lparr>stiffAssembler := stiff1, massAssembler := mass',
                            constRHS := middleRows_add numDofsVel c (mass_rhs mass')\<rparr>)))"

definition implicitNonlinear :: "ns_env \<Rightarrow> ns_integrator \<Rightarrow> error + ns_integrator" where
  "implicitNonlinear E s =
     thenE (computeConstRHS s)
       (\<lambda>s1. thenE (gsIterative_solve E (maxIters E) 0 (solVector s1) (m_ddof s1) s1 [])
          (\<lambda>(x, k, s2, tr).
             Inr (s2\<lparr>solVector := x,
                     m_ddof := stiff_fixedDofs (stiffAssembler s2),
                     numIters := k\<rparr>)))"

subsection \<open>implicitLinear\<close>

text \<open>
  \<^verbatim>\<open>solVector + tStep/oldTimeStep*(solVector-oldSolVector)\<close>: the extrapolated velocity at
  which the convective term is linearised. (With \<open>oldTimeStep = 0\<close> the division is by
  zero.)
\<close>

definition extrapolated :: "real \<Rightarrow> ns_integrator \<Rightarrow> gsVector" where
  "extrapolated dt s =
     vadd (solVector s) (vscale (dt / oldTimeStep s) (vsub (solVector s) (oldSolVector s)))"

definition implicitLinear :: "ns_env \<Rightarrow> ns_integrator \<Rightarrow> error + ns_integrator" where
  "implicitLinear E s =
     (let theta = opt_Theta s;
          numDofsVel = mass_numDofs (massAssembler s);
          stiff1 = (stiffAssembler s)\<lparr>opt_Assembly := ossen\<rparr>;
          r = vscale (tStep s * (1 - theta)) (stiff_rhs stiff1);
          r = middleRows_sub numDofsVel r
                (matvec (mscale (tStep s * (1 - theta))
                           (block (stiff_matrix stiff1) 0 0 numDofsVel numDofsVel))
                        (take numDofsVel (solVector s)));
          r = middleRows_add numDofsVel r
                (matvec (mass_matrix (massAssembler s)) (take numDofsVel (solVector s)));
          r = middleRows_sub numDofsVel r (mass_rhs (massAssembler s));
          (velocity, pressure) =
             constructSolution E stiff1 (extrapolated (tStep s) s) (stiff_fixedDofs stiff1)
      in thenE (if flagALE s then subtractALE (velocityALE s) (patchesALE s) velocity
                else Inr velocity)
           (\<lambda>velocity.
              let (A, f) = stiffAssembleVP E stiff1 velocity pressure;
                  stiff2 = stiff1\<lparr>stiff_matrix := A, stiff_rhs := f\<rparr>
              in thenE (eliminateFixedDofs
                          ((massAssembler s)\<lparr>mass_fixedDofs := stiff_fixedDofs stiff2\<rparr>))
                   (\<lambda>mass'.
                      let r = vadd r (vscale (tStep s * theta) f);
                          r = middleRows_add numDofsVel r (mass_rhs mass');
                          sysM = blendVelocityBlock theta numDofsVel (stiff_numDofs stiff2)
                                   (mass_matrix mass') (mscale (tStep s) A)
                      in Inr (s\<lparr>stiffAssembler := stiff2, massAssembler := mass',
                                m_system_matrix := sysM, m_system_rhs := r,
                                oldSolVector := solVector s,
                                oldTimeStep := tStep s,
                                m_ddof := stiff_fixedDofs stiff2,
                                numIters := 1,
                                solVector := luSolve E sysM r\<rparr>))))"

subsection \<open>makeTimeStep\<close>

definition makeTimeStep :: "ns_env \<Rightarrow> real \<Rightarrow> bool \<Rightarrow> ns_integrator \<Rightarrow> error + ns_integrator" where
  "makeTimeStep E timeStep ALE s =
     thenE (if \<not> initialized s then initialize E s else Inr s)
       (\<lambda>s. let s = s\<lparr>tStep := timeStep, flagALE := ALE\<rparr>
            in thenE (if opt_Scheme s = implicit_nonlinear then implicitNonlinear E s else Inr s)
                 (\<lambda>s. if opt_Scheme s = implicit_linear then implicitLinear E s else Inr s))"

section \<open>The staggered coupling loop of the one-way FSI benchmark\<close>

text \<open>
  The loop of \<^verbatim>\<open>main\<close>: beam, mesh motion (ALE), flow. The three solvers and the mesh
  check \<^verbatim>\<open>checkSolution\<close> are parameters; \<open>makeTimeStep\<close> above is the flow step of the
  source. Wall-clock timing, plotting and the log file are left out. The field \<open>calls\<close>
  records, in order, the solver invocations of the run with the step size each one
  received; a flow step is recorded with the ALE displacement in effect when it ran.
\<close>

datatype call =
    BeamStep real                 \<comment> \<open>\<^verbatim>\<open>elTimeSolver.makeTimeStep(tStep)\<close>\<close>
  | MeshSolve                     \<comment> \<open>\<^verbatim>\<open>aleNewton.reset(); aleNewton.solve()\<close>\<close>
  | FlowStep real bool gsMultiPatch  \<comment> \<open>\<^verbatim>\<open>nsTimeSolver.makeTimeStep(tStep,true)\<close>\<close>

record coupler_params =
  timeStep :: real
  timeSpan :: real
  warmUp :: bool
  inflowDDoFs :: gsVector

record ('b, 'a, 'f) coupler_env =
  checkSolution :: "gsMultiPatch \<Rightarrow> int"
  beamStep :: "real \<Rightarrow> 'b \<Rightarrow> 'b"
  beamDisplacement :: "'b \<Rightarrow> gsMultiPatch"
  meshSolve :: "gsMultiPatch \<Rightarrow> 'a \<Rightarrow> 'a"
  meshDisplacement :: "'a \<Rightarrow> gsMultiPatch"
  flowStep :: "real \<Rightarrow> bool \<Rightarrow> gsVector \<Rightarrow> gsMultiPatch \<Rightarrow> gsMultiPatch \<Rightarrow> 'f \<Rightarrow> error + 'f"

record ('b, 'a, 'f) coupler_state =
  simTime :: real
  numTimeStep :: real
  elTimeSolver :: 'b
  aleNewton :: 'a
  nsTimeSolver :: 'f
  dispBeam :: gsMultiPatch
  dispALE :: gsMultiPatch
  velALE :: gsMultiPatch
  flowPatches :: gsMultiPatch       \<comment> \<open>\<^verbatim>\<open>nsAssembler.patches()\<close>\<close>
  inflowFixedDofs :: gsVector       \<comment> \<open>the fixed DoFs of the flow at patch 0, west\<close>
  calls :: "call list"

text \<open>\<^verbatim>\<open>(warmUp && simTime < 2.) ? 0.1 : timeStep\<close>\<close>

definition stepSize :: "coupler_params \<Rightarrow> real \<Rightarrow> real" where
  "stepSize P t = (if warmUp P \<and> t < 2 then 1 / 10 else timeStep P)"

text \<open>\<^verbatim>\<open>(1-cos(M_PI*(simTime+tStep)/2.))/2\<close>\<close>

definition rampFactor :: "real \<Rightarrow> real \<Rightarrow> real" where
  "rampFactor t dt = (1 - cos (pi * (t + dt) / 2)) / 2"

text \<open>
  The loop over the ALE patches: the displacement difference, the update of the flow
  geometry and the ALE velocity. (With \<open>dt = 0\<close> the division is by zero.)
\<close>

fun aleVelocityLoop ::
  "real \<Rightarrow> gsMultiPatch \<Rightarrow> nat list \<Rightarrow> gsMultiPatch \<Rightarrow> gsMultiPatch
     \<Rightarrow> error + (gsMultiPatch \<times> gsMultiPatch)" where
  "aleVelocityLoop dt disp [] vel geo = Inr (vel, geo)"
| "aleVelocityLoop dt disp (p # ps) vel geo =
     (if p < length vel \<and> p < length disp \<and> p + 3 < length geo
      then let d = vsub (vel ! p) (disp ! p)
           in aleVelocityLoop dt disp ps
                (vel[p := map (\<lambda>x. x / dt) d]) (geo[p + 3 := vadd (geo ! (p + 3)) d])
      else Inl PatchOutOfRange)"

text \<open>The body of the loop after the mesh check.\<close>

definition coupler_body ::
  "('b, 'a, 'f) coupler_env \<Rightarrow> coupler_params \<Rightarrow> ('b, 'a, 'f) coupler_state
     \<Rightarrow> error + ('b, 'a, 'f) coupler_state" where
  "coupler_body E P st =
     (let dt = stepSize P (simTime st);
          inflow = (if simTime st < 2
                    then vscale (rampFactor (simTime st) dt) (inflowDDoFs P)
                    else inflowFixedDofs st);
          dispDiff = beamDisplacement E (elTimeSolver st);
          el' = beamStep E dt (elTimeSolver st);
          dispBeam' = beamDisplacement E el'
      in if dispDiff = [] \<or> dispBeam' = [] then Inl PatchOutOfRange
         else
           let dispDiff = dispDiff[0 := vsub (dispBeam' ! 0) (dispDiff ! 0)];
               ale' = meshSolve E dispDiff (aleNewton st);
               vel = meshDisplacement E ale'
           in thenE (aleVelocityLoop dt (dispALE st) [0..<length vel] vel (flowPatches st))
                (\<lambda>(vel, geo).
                   let disp' = meshDisplacement E ale'
                   in thenE (flowStep E dt True inflow vel geo (nsTimeSolver st))
                        (\<lambda>ns'. Inr (st\<lparr>simTime := simTime st + dt,
                                       numTimeStep := numTimeStep st + 1,
                                       elTimeSolver := el', aleNewton := ale',
                                       nsTimeSolver := ns',
                                       dispBeam := dispBeam', dispALE := disp', velALE := vel,
                                       flowPatches := geo, inflowFixedDofs := inflow,
                                       calls := calls st @
                                         [BeamStep dt, MeshSolve, FlowStep dt True disp']\<rparr>))))"

datatype outcome = Finished | MeshBreakdown | Aborted error | OutOfFuel

text \<open>
  \<^verbatim>\<open>while (simTime < timeSpan) { if (aleAssembler.checkSolution(dispALE) != -1) break; ... }\<close>
  The first argument bounds the number of iterations.
\<close>

fun coupler_loop ::
  "('b, 'a, 'f) coupler_env \<Rightarrow> coupler_params \<Rightarrow> nat \<Rightarrow> ('b, 'a, 'f) coupler_state
     \<Rightarrow> outcome \<times> ('b, 'a, 'f) coupler_state" where
  "coupler_loop E P 0 st = (OutOfFuel, st)"
| "coupler_loop E P (Suc n) st =
     (if \<not> simTime st < timeSpan P then (Finished, st)
      else if checkSolution E (dispALE st) \<noteq> - 1 then (MeshBreakdown, st)
      else case coupler_body E P st of
             Inl e \<Rightarrow> (Aborted e, st)
           | Inr st' \<Rightarrow> coupler_loop E P n st')"

section \<open>Auxiliary notions for the proofs\<close>

text \<open>
  What an assembly leaves alone: everything but the cached system of the stiffness
  assembler and the system of the integrator.
\<close>

definition assembly_frame :: "ns_integrator \<Rightarrow> ns_integrator \<Rightarrow> bool" where
  "assembly_frame s s' \<longleftrightarrow>
     constRHS s' = constRHS s \<and> tStep s' = tStep s \<and> opt_Theta s' = opt_Theta s \<and>
     flagALE s' = flagALE s \<and> velocityALE s' = velocityALE s \<and>
     patchesALE s' = patchesALE s \<and> massAssembler s' = massAssembler s \<and>
     solVector s' = solVector s \<and> oldSolVector s' = oldSolVector s \<and>
     oldTimeStep s' = oldTimeStep s \<and> hasSavedState s' = hasSavedState s \<and>
     initialized s' = initialized s \<and> opt_Scheme s' = opt_Scheme s \<and>
     m_ddof s' = m_ddof s \<and> numIters s' = numIters s \<and>
     stiff_numDofs (stiffAssembler s') = stiff_numDofs (stiffAssembler s) \<and>
     stiff_fixedDofs (stiffAssembler s') = stiff_fixedDofs (stiffAssembler s) \<and>
     opt_Assembly (stiffAssembler s') = opt_Assembly (stiffAssembler s)"

text \<open>
  A list of (trial solution, integrator) pairs in which every integrator is the result of
  \<open>assemble\<close> at its trial solution, called on the integrator before it.
\<close>

fun assembled_chain ::
  "ns_env \<Rightarrow> gsVector list \<Rightarrow> ns_integrator \<Rightarrow> (gsVector \<times> ns_integrator) list \<Rightarrow> bool" where
  "assembled_chain E d s [] = True"
| "assembled_chain E d s (xt # tr) =
     (assemble E (fst xt) d s = Inr (snd xt) \<and> assembled_chain E d (snd xt) tr)"

text \<open>
  The coefficient vector of patch \<open>p\<close> after the ALE correction: one subtraction for each
  entry of the correspondence whose first component is \<open>p\<close>.
\<close>

definition aleCorrected :: "gsMultiPatch \<Rightarrow> (nat \<times> nat) list \<Rightarrow> gsMultiPatch \<Rightarrow> nat \<Rightarrow> gsVector" where
  "aleCorrected w its velocity p =
     foldl (\<lambda>c q. vsub c (w ! q)) (velocity ! p)
       (map snd (filter (\<lambda>it. fst it = p) its))"

text \<open>
  \<open>s'\<close> holds the stiffness system assembled at the ALE-corrected velocity of the trial
  solution \<open>x\<close>: the velocity field is constructed from \<open>x\<close>, the mesh velocity is subtracted
  patch by patch, and the stiffness assembler is called with the result.
\<close>

definition ale_assembly ::
  "ns_env \<Rightarrow> ns_integrator \<Rightarrow> gsVector \<Rightarrow> gsVector list \<Rightarrow> ns_integrator \<Rightarrow> bool" where
  "ale_assembly E s x d s' \<longleftrightarrow>
     (\<exists>velocity pressure velocity'.
        constructSolution E (stiffAssembler s) x d = (velocity, pressure) \<and>
        length velocity' = length velocity \<and>
        (\<forall>p<length velocity.
           velocity' ! p = aleCorrected (velocityALE s) (patchesALE s) velocity p) \<and>
        stiffAssembleVP E (stiffAssembler s) velocity' pressure =
          (stiff_matrix (stiffAssembler s'), stiff_rhs (stiffAssembler s')))"

text \<open>
  Every patch index of the ALE correspondence is inside the velocity field that
  \<open>constructSolution\<close> builds and inside the mesh-velocity field.
\<close>

definition ale_in_range :: "ns_env \<Rightarrow> ns_integrator \<Rightarrow> bool" where
  "ale_in_range E s \<longleftrightarrow>
     (\<forall>a x d. \<forall>it\<in>set (patchesALE s).
        fst it < length (fst (constructSolution E a x d)) \<and> snd it < length (velocityALE s))"

text \<open>
  The iteration from \<open>st\<close> to \<open>st'\<close> ran with the step size \<open>dt\<close>: the beam step and the flow
  step received \<open>dt\<close>, the ALE velocity is the displacement difference divided by \<open>dt\<close>, and
  the simulation time advanced by \<open>dt\<close>.
\<close>

definition iteration_with_step ::
  "('b, 'a, 'f) coupler_env \<Rightarrow> ('b, 'a, 'f) coupler_state \<Rightarrow> ('b, 'a, 'f) coupler_state
     \<Rightarrow> real \<Rightarrow> bool" where
  "iteration_with_step E st st' dt \<longleftrightarrow>
     calls st' = calls st @ [BeamStep dt, MeshSolve, FlowStep dt True (dispALE st')] \<and>
     elTimeSolver st' = beamStep E dt (elTimeSolver st) \<and>
     flowStep E dt True (inflowFixedDofs st') (velALE st') (flowPatches st') (nsTimeSolver st) =
       Inr (nsTimeSolver st') \<and>
     length (velALE st') = length (dispALE st') \<and>
     (\<forall>p<length (velALE st').
        velALE st' ! p = map (\<lambda>x. x / dt) (vsub (dispALE st' ! p) (dispALE st ! p))) \<and>
     simTime st' = simTime st + dt"

section \<open>A small instance, for evaluation\<close>

definition demo_stiffM :: gsSparseMatrix where
  "demo_stiffM = \<lparr>nrows = 2, ncols = 2,
                  coeff = \<lambda>i j. if i < 2 \<and> j < 2 then real (2 * i + j + 1) else 0\<rparr>"

definition demo_massM :: gsSparseMatrix where
  "demo_massM = \<lparr>nrows = 1, ncols = 1, coeff = \<lambda>i j. if i < 1 \<and> j < 1 then 5 else 0\<rparr>"

text \<open>
  The parameters of the instance are small stand-ins for the parts outside the sources:
  the stiffness matrix is constant and the stiffness right-hand side lists the velocity and
  pressure coefficients it was given, the velocity is the first entry of the solution
  vector and the pressure the rest, the linear solver returns the right-hand side, and the
  nonlinear solver runs its two iterations.
\<close>

definition demo_env :: ns_env where
  "demo_env =
     \<lparr>stiffAssembleSol = \<lambda>a x d. (demo_stiffM, x),
      stiffAssembleVP = \<lambda>a v p. (demo_stiffM, concat v @ concat p),
      constructSolution = \<lambda>a x d. ([take 1 x], [drop 1 x]),
      massVisitor = \<lambda>m. (demo_massM, \<lparr>nrows = 1, ncols = 0, coeff = \<lambda>i j. 0\<rparr>),
      luSolve = \<lambda>A b. b,
      maxIters = 2,
      converged = \<lambda>absTol relTol k x x' r. False\<rparr>"

definition demo_stiff :: stiff_assembler where
  "demo_stiff = \<lparr>stiff_matrix = emptyMatrix, stiff_rhs = [], stiff_fixedDofs = [],
                 stiff_numDofs = 2, opt_Assembly = other_assembly\<rparr>"

definition demo_mass :: mass_assembler where
  "demo_mass = \<lparr>mass_matrix = emptyMatrix, mass_rhs = [], mass_fixedDofs = [],
                mass_numDofs = 1, assembledFlag = False, eliminationMatrix = emptyMatrix\<rparr>"

text \<open>A fresh integrator with default options and the initial solution \<open>[1, 2]\<close>.\<close>

definition demo_ns :: ns_integrator where
  "demo_ns = (gsNsTimeIntegrator demo_stiff demo_mass [[1]] [(0, 0)])\<lparr>solVector := [1, 2]\<rparr>"

text \<open>The same integrator after \<open>initialize\<close>.\<close>

definition demo_init :: ns_integrator where
  "demo_init = projr (initialize demo_env demo_ns)"

text \<open>The initialized integrator with a step size and the ALE flag set.\<close>

definition demo_step :: ns_integrator where
  "demo_step = demo_init\<lparr>tStep := 1 / 100, flagALE := True\<rparr>"

text \<open>The fresh integrator after a first step of size \<open>0.01\<close> with the default scheme.\<close>

definition demo_after1 :: ns_integrator where
  "demo_after1 = projr (makeTimeStep demo_env (1 / 100) True demo_ns)"

text \<open>
  A coupled run with the default parameters of the example (step \<open>0.01\<close>, span \<open>3\<close>, no
  warm-up). The mesh check reports a patch as soon as a coefficient of the ALE
  displacement is negative; the mesh solver returns such a displacement.
\<close>

definition demo_params :: coupler_params where
  "demo_params = \<lparr>timeStep = 1 / 100, timeSpan = 3, warmUp = False, inflowDDoFs = [1]\<rparr>"

definition demo_warm :: coupler_params where
  "demo_warm = \<lparr>timeStep = 1 / 100, timeSpan = 3, warmUp = True, inflowDDoFs = [1]\<rparr>"

definition demo_check :: "gsMultiPatch \<Rightarrow> int" where
  "demo_check d = (if list_all (list_all (\<lambda>x. 0 \<le> x)) d then - 1 else 0)"

definition demo_cenv :: "(nat, gsMultiPatch, nat) coupler_env" where
  "demo_cenv =
     \<lparr>checkSolution = demo_check,
      beamStep = \<lambda>dt b. Suc b,
      beamDisplacement = \<lambda>b. [[real b]],
      meshSolve = \<lambda>dd a. [[- 1]],
      meshDisplacement = \<lambda>a. a,
      flowStep = \<lambda>dt ale inflow vel geo f. Inr (Suc f)\<rparr>"

definition demo_cstate :: "(nat, gsMultiPatch, nat) coupler_state" where
  "demo_cstate =
     \<lparr>simTime = 0, numTimeStep = 0, elTimeSolver = 0, aleNewton = [[0]], nsTimeSolver = 0,
      dispBeam = [[0]], dispALE = [[0]], velALE = [],
      flowPatches = [[0], [0], [0], [0]], inflowFixedDofs = [0], calls = []\<rparr>"

section \<open>Basic facts\<close>

lemma thenE_Inr [simp]: "thenE (Inr x) f = f x"
  by (simp add: thenE_def)

lemma thenE_Inl [simp]: "thenE (Inl e) f = Inl e"
  by (simp add: thenE_def)

lemma thenE_eq_Inr: "thenE r f = Inr y \<longleftrightarrow> (\<exists>x. r = Inr x \<and> f x = Inr y)"
  by (cases r) simp_all

lemma initialize_eq_Inr:
  "initialize E s = Inr s' \<Longrightarrow>
     length (solVector s) = stiff_numDofs (stiffAssembler s) \<and> initialized s' \<and>
     solVector s' = solVector s \<and> oldSolVector s' = solVector s \<and> oldTimeStep s' = 1 \<and>
     hasSavedState s' = hasSavedState s \<and> opt_Scheme s' = opt_Scheme s \<and>
     assembledFlag (massAssembler s') \<and>
     flagALE s' = flagALE s \<and> velocityALE s' = velocityALE s \<and> patchesALE s' = patchesALE s \<and>
     stiff_numDofs (stiffAssembler s') = stiff_numDofs (stiffAssembler s)"
  by (auto simp: initialize_def Let_def mass_assemble_def split: if_splits prod.splits)

lemma initialize_isl:
  "isl (initialize E s) \<longleftrightarrow> length (solVector s) \<noteq> stiff_numDofs (stiffAssembler s)"
  by (simp add: initialize_def Let_def split: prod.splits)

lemma assembly_frame_refl: "assembly_frame s s"
  by (simp add: assembly_frame_def)

lemma assembly_frame_trans:
  "assembly_frame s s' \<Longrightarrow> assembly_frame s' s'' \<Longrightarrow> assembly_frame s s''"
  by (simp add: assembly_frame_def)

lemma assemble_eq_Inr:
  assumes "assemble E x d s = Inr s'"
  shows "\<exists>velocity pressure velocity' A f.
           constructSolution E (stiffAssembler s) x d = (velocity, pressure) \<and>
           (if flagALE s then subtractALE (velocityALE s) (patchesALE s) velocity
            else Inr velocity) = Inr velocity' \<and>
           stiffAssembleVP E (stiffAssembler s) velocity' pressure = (A, f) \<and>
           stiff_matrix (stiffAssembler s') = A \<and> stiff_rhs (stiffAssembler s') = f \<and>
           m_system_matrix s' =
             blendVelocityBlock (opt_Theta s) (mass_numDofs (massAssembler s))
               (stiff_numDofs (stiffAssembler s)) (mass_matrix (massAssembler s))
               (mscale (tStep s) A) \<and>
           m_system_rhs s' = vadd (vscale (tStep s * opt_Theta s) f) (constRHS s) \<and>
           assembly_frame s s'"
proof -
  obtain velocity pressure
    where vp: "constructSolution E (stiffAssembler s) x d = (velocity, pressure)"
    by (cases "constructSolution E (stiffAssembler s) x d")
  from assms vp obtain velocity'
    where v': "(if flagALE s then subtractALE (velocityALE s) (patchesALE s) velocity
                else Inr velocity) = Inr velocity'"
    by (cases "if flagALE s then subtractALE (velocityALE s) (patchesALE s) velocity
               else Inr velocity") (simp_all add: assemble_def)
  obtain A f where Af: "stiffAssembleVP E (stiffAssembler s) velocity' pressure = (A, f)"
    by (cases "stiffAssembleVP E (stiffAssembler s) velocity' pressure")
  have s': "s' = s\<lparr>stiffAssembler := (stiffAssembler s)\<lparr>stiff_matrix := A, stiff_rhs := f\<rparr>,
                  m_system_matrix :=
                    blendVelocityBlock (opt_Theta s) (mass_numDofs (massAssembler s))
                      (stiff_numDofs (stiffAssembler s)) (mass_matrix (massAssembler s))
                      (mscale (tStep s) A),
                  m_system_rhs := vadd (vscale (tStep s * opt_Theta s) f) (constRHS s)\<rparr>"
    using assms vp v' Af by (simp add: assemble_def Let_def)
  show ?thesis
    apply (rule exI [of _ velocity], rule exI [of _ pressure], rule exI [of _ velocity'])
    apply (rule exI [of _ A], rule exI [of _ f])
    using vp v' Af by (simp add: s' assembly_frame_def)
qed

lemma assembled_chain_append:
  "assembled_chain E d s (tr @ [(x, t)]) \<longleftrightarrow>
     assembled_chain E d s tr \<and>
     assemble E x d (if tr = [] then s else snd (last tr)) = Inr t"
  by (induction tr arbitrary: s) auto

lemma assembled_chain_frame:
  "assembled_chain E d s tr \<Longrightarrow> xt \<in> set tr \<Longrightarrow>
     \<exists>p. assembly_frame s p \<and> assemble E (fst xt) d p = Inr (snd xt)"
proof (induction tr arbitrary: s)
  case Nil
  then show ?case by simp
next
  case (Cons a tr)
  show ?case
  proof (cases "xt = a")
    case True
    with Cons.prems show ?thesis
      using assembly_frame_refl by auto
  next
    case False
    with Cons.prems have "xt \<in> set tr" and ch: "assembled_chain E d (snd a) tr"
      and a: "assemble E (fst a) d s = Inr (snd a)"
      by auto
    from Cons.IH [OF ch \<open>xt \<in> set tr\<close>] obtain p
      where p: "assembly_frame (snd a) p" "assemble E (fst xt) d p = Inr (snd xt)"
      by blast
    from assemble_eq_Inr [OF a] have "assembly_frame s (snd a)" by blast
    with p show ?thesis
      using assembly_frame_trans by blast
  qed
qed

lemma gsIterative_solve_chain:
  "gsIterative_solve E n k x d s tr = Inr (x', k', s', tr') \<Longrightarrow>
     \<exists>new. tr' = tr @ new \<and> k' = k + length new \<and> length new \<le> n \<and>
           assembled_chain E d s new \<and>
           s' = (if new = [] then s else snd (last new)) \<and> assembly_frame s s'"
proof (induction n arbitrary: k x s tr)
  case 0
  then show ?case by (simp add: assembly_frame_refl)
next
  case (Suc n)
  from Suc.prems obtain s1 where s1: "assemble E x d s = Inr s1"
    by (auto split: sum.splits)
  from assemble_eq_Inr [OF s1] have fr: "assembly_frame s s1" by blast
  let ?x1 = "luSolve E (m_system_matrix s1) (m_system_rhs s1)"
  show ?case
  proof (cases "converged E (opt_AbsTol s1) (opt_RelTol s1) (Suc k) x ?x1 (m_system_rhs s1)")
    case True
    with Suc.prems s1 have "tr' = tr @ [(x, s1)]" "k' = Suc k" "s' = s1"
      by (auto simp: Let_def)
    with s1 fr show ?thesis by simp
  next
    case False
    with Suc.prems s1
    have "gsIterative_solve E n (Suc k) ?x1 d s1 (tr @ [(x, s1)]) = Inr (x', k', s', tr')"
      by (simp add: Let_def)
    from Suc.IH [OF this] obtain new where new:
      "tr' = (tr @ [(x, s1)]) @ new" "k' = Suc k + length new" "length new \<le> n"
      "assembled_chain E d s1 new"
      "s' = (if new = [] then s1 else snd (last new))" "assembly_frame s1 s'"
      by blast
    have "tr' = tr @ ((x, s1) # new)" using new(1) by simp
    moreover have "k' = k + length ((x, s1) # new)" using new(2) by simp
    moreover have "length ((x, s1) # new) \<le> Suc n" using new(3) by simp
    moreover have "assembled_chain E d s ((x, s1) # new)" using s1 new(4) by simp
    moreover have "s' = (if (x, s1) # new = [] then s else snd (last ((x, s1) # new)))"
      using new(5) by simp
    moreover have "assembly_frame s s'" using fr new(6) assembly_frame_trans by blast
    ultimately show ?thesis by blast
  qed
qed

subsection \<open>The ALE correction\<close>

lemma subtractALE_length: "subtractALE w its v = Inr v' \<Longrightarrow> length v' = length v"
  by (induction its arbitrary: v) (auto split: if_splits)

lemma subtractALE_nth:
  "subtractALE w its v = Inr v' \<Longrightarrow> p < length v \<Longrightarrow> v' ! p = aleCorrected w its v p"
proof (induction its arbitrary: v)
  case Nil
  then show ?case by (simp add: aleCorrected_def)
next
  case (Cons it its)
  let ?v1 = "v[fst it := vsub (v ! fst it) (w ! snd it)]"
  from Cons.prems have r: "subtractALE w its ?v1 = Inr v'" and a: "fst it < length v"
    by (auto split: if_splits)
  from Cons.prems have "p < length ?v1" by simp
  from Cons.IH [OF r this] have "v' ! p = aleCorrected w its ?v1 p" .
  also have "\<dots> = aleCorrected w (it # its) v p"
    using Cons.prems(2) by (simp add: aleCorrected_def nth_list_update)
  finally show ?case .
qed

lemma subtractALE_ok:
  "\<forall>it\<in>set its. fst it < length v \<and> snd it < length w \<Longrightarrow> \<exists>v'. subtractALE w its v = Inr v'"
  by (induction its arbitrary: v) auto

lemma subtractALE_in_range:
  "subtractALE w its v = Inr v' \<Longrightarrow> \<forall>it\<in>set its. fst it < length v \<and> snd it < length w"
proof (induction its arbitrary: v)
  case Nil
  then show ?case by simp
next
  case (Cons it its)
  then show ?case by (fastforce split: if_splits)
qed

lemma aleCorrected_unlisted:
  "p \<notin> fst ` set its \<Longrightarrow> aleCorrected w its v p = v ! p"
proof -
  assume "p \<notin> fst ` set its"
  then have "filter (\<lambda>it. fst it = p) its = []"
    by (auto simp: filter_empty_conv)
  then show ?thesis by (simp add: aleCorrected_def)
qed

lemma aleCorrected_listed_once:
  "distinct (map fst its) \<Longrightarrow> (p, q) \<in> set its \<Longrightarrow>
     aleCorrected w its v p = vsub (v ! p) (w ! q)"
proof (induction its)
  case Nil
  then show ?case by simp
next
  case (Cons it its)
  show ?case
  proof (cases "it = (p, q)")
    case True
    with Cons.prems have "p \<notin> fst ` set its" by auto
    then have "filter (\<lambda>it. fst it = p) its = []"
      by (auto simp: filter_empty_conv)
    with True show ?thesis by (simp add: aleCorrected_def)
  next
    case False
    with Cons.prems have in_its: "(p, q) \<in> set its" and d: "distinct (map fst its)" by auto
    have "fst it \<notin> fst ` set its" using Cons.prems(1) by simp
    moreover have "p \<in> fst ` set its" using in_its by force
    ultimately have "fst it \<noteq> p" by blast
    with Cons.IH [OF d in_its] show ?thesis by (simp add: aleCorrected_def)
  qed
qed

subsection \<open>The blended matrix\<close>

lemma blendVelocityBlock_coeff:
  "nv \<le> n \<Longrightarrow>
     coeff (blendVelocityBlock theta nv n M (mscale dt A)) i j =
       (if i < nv \<and> j < nv then coeff M i j + dt * theta * coeff A i j else dt * coeff A i j)"
  by (simp add: blendVelocityBlock_def Let_def block_def mscale_def madd_def
      conservativeResize_def leftCols_add_def algebra_simps)

lemma blendVelocityBlock_dims:
  "nrows (blendVelocityBlock theta nv n M (mscale dt A)) = nrows A \<and>
   ncols (blendVelocityBlock theta nv n M (mscale dt A)) = ncols A"
  by (simp add: blendVelocityBlock_def Let_def mscale_def leftCols_add_def)

subsection \<open>The steps of the integrator\<close>

lemma eliminateFixedDofs_eq_Inr:
  "eliminateFixedDofs m = Inr m' \<longleftrightarrow>
     assembledFlag m \<and>
     m' = m\<lparr>mass_rhs := vscale (- 1) (matvec (eliminationMatrix m) (concat (mass_fixedDofs m)))\<rparr>"
  by (auto simp: eliminateFixedDofs_def)

lemma computeConstRHS_eq_Inr:
  assumes "computeConstRHS s = Inr s1"
  shows "assembledFlag (massAssembler s) \<and> assembledFlag (massAssembler s1) \<and>
         solVector s1 = solVector s \<and> m_ddof s1 = m_ddof s \<and> tStep s1 = tStep s \<and>
         opt_Theta s1 = opt_Theta s \<and> flagALE s1 = flagALE s \<and>
         velocityALE s1 = velocityALE s \<and> patchesALE s1 = patchesALE s \<and>
         oldSolVector s1 = oldSolVector s \<and> oldTimeStep s1 = oldTimeStep s \<and>
         hasSavedState s1 = hasSavedState s \<and> initialized s1 = initialized s \<and>
         opt_Scheme s1 = opt_Scheme s \<and>
         mass_matrix (massAssembler s1) = mass_matrix (massAssembler s) \<and>
         mass_numDofs (massAssembler s1) = mass_numDofs (massAssembler s) \<and>
         stiff_numDofs (stiffAssembler s1) = stiff_numDofs (stiffAssembler s) \<and>
         opt_Assembly (stiffAssembler s1) = newton_next"
  using assms
  by (auto simp: computeConstRHS_def Let_def thenE_eq_Inr eliminateFixedDofs_eq_Inr)

lemma computeConstRHS_ok:
  "assembledFlag (massAssembler s) \<Longrightarrow> \<exists>s1. computeConstRHS s = Inr s1"
  by (simp add: computeConstRHS_def Let_def eliminateFixedDofs_def)

lemma implicitNonlinear_eq_Inr:
  assumes "implicitNonlinear E s = Inr s'"
  shows "\<exists>s1 x k s2 tr.
           computeConstRHS s = Inr s1 \<and>
           gsIterative_solve E (maxIters E) 0 (solVector s1) (m_ddof s1) s1 [] = Inr (x, k, s2, tr) \<and>
           s' = s2\<lparr>solVector := x, m_ddof := stiff_fixedDofs (stiffAssembler s2), numIters := k\<rparr>"
  using assms by (auto simp: implicitNonlinear_def thenE_eq_Inr)

lemma implicitNonlinear_unchanged:
  assumes "implicitNonlinear E s = Inr s'"
  shows "oldSolVector s' = oldSolVector s \<and> oldTimeStep s' = oldTimeStep s \<and>
         hasSavedState s' = hasSavedState s \<and> initialized s' = initialized s \<and>
         opt_Scheme s' = opt_Scheme s"
proof -
  from implicitNonlinear_eq_Inr [OF assms] obtain s1 x k s2 tr where
    s1: "computeConstRHS s = Inr s1" and
    it: "gsIterative_solve E (maxIters E) 0 (solVector s1) (m_ddof s1) s1 [] = Inr (x, k, s2, tr)" and
    s': "s' = s2\<lparr>solVector := x, m_ddof := stiff_fixedDofs (stiffAssembler s2), numIters := k\<rparr>"
    by blast
  from gsIterative_solve_chain [OF it] have "assembly_frame s1 s2" by blast
  with computeConstRHS_eq_Inr [OF s1] show ?thesis
    by (simp add: s' assembly_frame_def)
qed

lemma implicitLinear_eq_Inr:
  assumes "implicitLinear E s = Inr s'"
  shows "\<exists>velocity pressure velocity' A f.
           constructSolution E ((stiffAssembler s)\<lparr>opt_Assembly := ossen\<rparr>)
             (extrapolated (tStep s) s) (stiff_fixedDofs (stiffAssembler s)) = (velocity, pressure) \<and>
           (if flagALE s then subtractALE (velocityALE s) (patchesALE s) velocity
            else Inr velocity) = Inr velocity' \<and>
           stiffAssembleVP E ((stiffAssembler s)\<lparr>opt_Assembly := ossen\<rparr>) velocity' pressure = (A, f) \<and>
           assembledFlag (massAssembler s) \<and>
           stiff_matrix (stiffAssembler s') = A \<and> stiff_rhs (stiffAssembler s') = f \<and>
           m_system_matrix s' =
             blendVelocityBlock (opt_Theta s) (mass_numDofs (massAssembler s))
               (stiff_numDofs (stiffAssembler s)) (mass_matrix (massAssembler s))
               (mscale (tStep s) A) \<and>
           oldSolVector s' = solVector s \<and> oldTimeStep s' = tStep s \<and> numIters s' = 1 \<and>
           solVector s' = luSolve E (m_system_matrix s') (m_system_rhs s') \<and>
           mass_matrix (massAssembler s') = mass_matrix (massAssembler s) \<and>
           mass_numDofs (massAssembler s') = mass_numDofs (massAssembler s) \<and>
           stiff_numDofs (stiffAssembler s') = stiff_numDofs (stiffAssembler s) \<and>
           hasSavedState s' = hasSavedState s \<and> initialized s' = initialized s \<and>
           opt_Scheme s' = opt_Scheme s \<and> tStep s' = tStep s \<and> opt_Theta s' = opt_Theta s"
proof -
  let ?stiff1 = "(stiffAssembler s)\<lparr>opt_Assembly := ossen\<rparr>"
  obtain velocity pressure
    where vp: "constructSolution E ?stiff1 (extrapolated (tStep s) s)
                 (stiff_fixedDofs (stiffAssembler s)) = (velocity, pressure)"
    by (cases "constructSolution E ?stiff1 (extrapolated (tStep s) s)
                 (stiff_fixedDofs (stiffAssembler s))")
  from assms vp obtain velocity'
    where v': "(if flagALE s then subtractALE (velocityALE s) (patchesALE s) velocity
                else Inr velocity) = Inr velocity'"
    by (cases "if flagALE s then subtractALE (velocityALE s) (patchesALE s) velocity
               else Inr velocity") (simp_all add: implicitLinear_def Let_def)
  obtain A f where Af: "stiffAssembleVP E ?stiff1 velocity' pressure = (A, f)"
    by (cases "stiffAssembleVP E ?stiff1 velocity' pressure")
  from assms vp v' Af have fl: "assembledFlag (massAssembler s)"
    by (auto simp: implicitLinear_def Let_def thenE_eq_Inr eliminateFixedDofs_eq_Inr)
  show ?thesis
    apply (rule exI [of _ velocity], rule exI [of _ pressure], rule exI [of _ velocity'])
    apply (rule exI [of _ A], rule exI [of _ f])
    using assms vp v' Af fl
    by (auto simp: implicitLinear_def Let_def eliminateFixedDofs_def)
qed

lemma implicitLinear_ok:
  assumes "assembledFlag (massAssembler s)" and "flagALE s \<longrightarrow> ale_in_range E s"
  shows "\<exists>s'. implicitLinear E s = Inr s'"
proof -
  let ?stiff1 = "(stiffAssembler s)\<lparr>opt_Assembly := ossen\<rparr>"
  obtain velocity pressure
    where vp: "constructSolution E ?stiff1 (extrapolated (tStep s) s)
                 (stiff_fixedDofs (stiffAssembler s)) = (velocity, pressure)"
    by (cases "constructSolution E ?stiff1 (extrapolated (tStep s) s)
                 (stiff_fixedDofs (stiffAssembler s))")
  have "\<exists>velocity'. (if flagALE s then subtractALE (velocityALE s) (patchesALE s) velocity
                else Inr velocity) = Inr velocity'"
  proof (cases "flagALE s")
    case True
    with assms(2) have "ale_in_range E s" by simp
    then have "\<forall>it\<in>set (patchesALE s). fst it < length velocity \<and> snd it < length (velocityALE s)"
      unfolding ale_in_range_def using vp by (metis fst_conv)
    from subtractALE_ok [OF this] True show ?thesis by simp
  next
    case False
    then show ?thesis by simp
  qed
  then obtain velocity'
    where v': "(if flagALE s then subtractALE (velocityALE s) (patchesALE s) velocity
                else Inr velocity) = Inr velocity'" ..
  obtain A f where Af: "stiffAssembleVP E ?stiff1 velocity' pressure = (A, f)"
    by (cases "stiffAssembleVP E ?stiff1 velocity' pressure")
  show ?thesis
    using vp v' Af assms(1)
    by (simp add: implicitLinear_def Let_def eliminateFixedDofs_def)
qed

lemma assemble_ok:
  assumes "flagALE s \<longrightarrow> ale_in_range E s"
  shows "\<exists>s'. assemble E x d s = Inr s'"
proof -
  obtain velocity pressure
    where vp: "constructSolution E (stiffAssembler s) x d = (velocity, pressure)"
    by (cases "constructSolution E (stiffAssembler s) x d")
  have "\<exists>velocity'. (if flagALE s then subtractALE (velocityALE s) (patchesALE s) velocity
                else Inr velocity) = Inr velocity'"
  proof (cases "flagALE s")
    case True
    with assms have "ale_in_range E s" by simp
    then have "\<forall>it\<in>set (patchesALE s). fst it < length velocity \<and> snd it < length (velocityALE s)"
      unfolding ale_in_range_def using vp by (metis fst_conv)
    from subtractALE_ok [OF this] True show ?thesis by simp
  next
    case False
    then show ?thesis by simp
  qed
  then obtain velocity'
    where v': "(if flagALE s then subtractALE (velocityALE s) (patchesALE s) velocity
                else Inr velocity) = Inr velocity'" ..
  obtain A f where Af: "stiffAssembleVP E (stiffAssembler s) velocity' pressure = (A, f)"
    by (cases "stiffAssembleVP E (stiffAssembler s) velocity' pressure")
  show ?thesis
    using vp v' Af by (simp add: assemble_def Let_def)
qed

lemma ale_in_range_frame:
  "assembly_frame s s' \<Longrightarrow> (flagALE s \<longrightarrow> ale_in_range E s) \<Longrightarrow> (flagALE s' \<longrightarrow> ale_in_range E s')"
  by (simp add: assembly_frame_def ale_in_range_def)

lemma gsIterative_solve_ok:
  "flagALE s \<longrightarrow> ale_in_range E s \<Longrightarrow> \<exists>r. gsIterative_solve E n k x d s tr = Inr r"
proof (induction n arbitrary: k x s tr)
  case 0
  then show ?case by simp
next
  case (Suc n)
  from assemble_ok [OF Suc.prems] obtain s1 where s1: "assemble E x d s = Inr s1" by blast
  from assemble_eq_Inr [OF s1] have "assembly_frame s s1" by blast
  from ale_in_range_frame [OF this Suc.prems]
  have "flagALE s1 \<longrightarrow> ale_in_range E s1" .
  from Suc.IH [OF this] s1 show ?case
    by (simp add: Let_def)
qed

lemma implicitNonlinear_ok:
  assumes "assembledFlag (massAssembler s)" and "flagALE s \<longrightarrow> ale_in_range E s"
  shows "\<exists>s'. implicitNonlinear E s = Inr s'"
proof -
  from computeConstRHS_ok [OF assms(1)] obtain s1 where s1: "computeConstRHS s = Inr s1" by blast
  from computeConstRHS_eq_Inr [OF s1] assms(2) have "flagALE s1 \<longrightarrow> ale_in_range E s1"
    by (simp add: ale_in_range_def)
  from gsIterative_solve_ok [OF this] obtain r
    where "gsIterative_solve E (maxIters E) 0 (solVector s1) (m_ddof s1) s1 [] = Inr r" by blast
  with s1 show ?thesis
    by (cases r) (simp add: implicitNonlinear_def)
qed

lemma makeTimeStep_cases:
  assumes "makeTimeStep E dt ale s = Inr s'"
  shows "\<exists>s0. (if initialized s then s0 = s else initialize E s = Inr s0) \<and>
           opt_Scheme s0 = opt_Scheme s \<and> solVector s0 = solVector s \<and>
           hasSavedState s0 = hasSavedState s \<and>
           (opt_Scheme s = implicit_nonlinear \<longrightarrow>
              implicitNonlinear E (s0\<lparr>tStep := dt, flagALE := ale\<rparr>) = Inr s') \<and>
           (opt_Scheme s = implicit_linear \<longrightarrow>
              implicitLinear E (s0\<lparr>tStep := dt, flagALE := ale\<rparr>) = Inr s') \<and>
           (opt_Scheme s = other_scheme \<longrightarrow> s' = s0\<lparr>tStep := dt, flagALE := ale\<rparr>)"
proof -
  from assms obtain s0 where
    s0: "(if \<not> initialized s then initialize E s else Inr s) = Inr s0" and
    rest: "thenE (if opt_Scheme s0 = implicit_nonlinear
                  then implicitNonlinear E (s0\<lparr>tStep := dt, flagALE := ale\<rparr>)
                  else Inr (s0\<lparr>tStep := dt, flagALE := ale\<rparr>))
             (\<lambda>s. if opt_Scheme s = implicit_linear then implicitLinear E s else Inr s) = Inr s'"
    by (auto simp: makeTimeStep_def thenE_eq_Inr Let_def)
  have same: "opt_Scheme s0 = opt_Scheme s \<and> solVector s0 = solVector s \<and>
              hasSavedState s0 = hasSavedState s"
    using s0 initialize_eq_Inr [of E s s0] by (cases "initialized s") auto
  have init: "if initialized s then s0 = s else initialize E s = Inr s0"
    using s0 by (cases "initialized s") auto
  show ?thesis
  proof (cases "opt_Scheme s")
    case implicit_nonlinear
    with rest same obtain s2 where
      s2: "implicitNonlinear E (s0\<lparr>tStep := dt, flagALE := ale\<rparr>) = Inr s2" and
      fin: "(if opt_Scheme s2 = implicit_linear then implicitLinear E s2 else Inr s2) = Inr s'"
      by (auto simp: thenE_eq_Inr)
    from implicitNonlinear_unchanged [OF s2] same implicit_nonlinear
    have "opt_Scheme s2 = implicit_nonlinear" by simp
    with fin have "s' = s2" by simp
    with s2 init same implicit_nonlinear show ?thesis by (intro exI [of _ s0]) simp
  next
    case implicit_linear
    with rest same init show ?thesis by (intro exI [of _ s0]) simp
  next
    case other_scheme
    with rest same init show ?thesis by (intro exI [of _ s0]) auto
  qed
qed

lemma makeTimeStep_old:
  assumes "makeTimeStep E dt ale s = Inr s'"
  shows "(opt_Scheme s = implicit_linear \<longrightarrow>
            oldSolVector s' = solVector s \<and> oldTimeStep s' = dt) \<and>
         (opt_Scheme s = implicit_nonlinear \<longrightarrow>
            oldSolVector s' = (if initialized s then oldSolVector s else solVector s) \<and>
            oldTimeStep s' = (if initialized s then oldTimeStep s else 1))"
proof -
  from makeTimeStep_cases [OF assms] obtain s0 where
    init: "if initialized s then s0 = s else initialize E s = Inr s0" and
    sol: "solVector s0 = solVector s" and
    nl: "opt_Scheme s = implicit_nonlinear \<longrightarrow>
           implicitNonlinear E (s0\<lparr>tStep := dt, flagALE := ale\<rparr>) = Inr s'" and
    li: "opt_Scheme s = implicit_linear \<longrightarrow>
           implicitLinear E (s0\<lparr>tStep := dt, flagALE := ale\<rparr>) = Inr s'"
    by blast
  have old0: "oldSolVector s0 = (if initialized s then oldSolVector s else solVector s) \<and>
              oldTimeStep s0 = (if initialized s then oldTimeStep s else 1)"
    using init initialize_eq_Inr [of E s s0] by (cases "initialized s") auto
  have "opt_Scheme s = implicit_linear \<longrightarrow> oldSolVector s' = solVector s \<and> oldTimeStep s' = dt"
  proof
    assume "opt_Scheme s = implicit_linear"
    with li have "implicitLinear E (s0\<lparr>tStep := dt, flagALE := ale\<rparr>) = Inr s'" by simp
    from implicitLinear_eq_Inr [OF this] sol
    show "oldSolVector s' = solVector s \<and> oldTimeStep s' = dt" by auto
  qed
  moreover
  have "opt_Scheme s = implicit_nonlinear \<longrightarrow>
            oldSolVector s' = (if initialized s then oldSolVector s else solVector s) \<and>
            oldTimeStep s' = (if initialized s then oldTimeStep s else 1)"
  proof
    assume "opt_Scheme s = implicit_nonlinear"
    with nl have "implicitNonlinear E (s0\<lparr>tStep := dt, flagALE := ale\<rparr>) = Inr s'" by simp
    from implicitNonlinear_unchanged [OF this] old0
    show "oldSolVector s' = (if initialized s then oldSolVector s else solVector s) \<and>
            oldTimeStep s' = (if initialized s then oldTimeStep s else 1)" by simp
  qed
  ultimately show ?thesis by blast
qed

lemma makeTimeStep_hasSavedState:
  assumes "makeTimeStep E dt ale s = Inr s'"
  shows "hasSavedState s' = hasSavedState s"
proof -
  from makeTimeStep_cases [OF assms] obtain s0 where
    sv: "hasSavedState s0 = hasSavedState s" and
    nl: "opt_Scheme s = implicit_nonlinear \<longrightarrow>
           implicitNonlinear E (s0\<lparr>tStep := dt, flagALE := ale\<rparr>) = Inr s'" and
    li: "opt_Scheme s = implicit_linear \<longrightarrow>
           implicitLinear E (s0\<lparr>tStep := dt, flagALE := ale\<rparr>) = Inr s'" and
    ot: "opt_Scheme s = other_scheme \<longrightarrow> s' = s0\<lparr>tStep := dt, flagALE := ale\<rparr>"
    by blast
  show ?thesis
  proof (cases "opt_Scheme s")
    case implicit_nonlinear
    with nl implicitNonlinear_unchanged [of E "s0\<lparr>tStep := dt, flagALE := ale\<rparr>" s'] sv
    show ?thesis by simp
  next
    case implicit_linear
    with li implicitLinear_eq_Inr [of E "s0\<lparr>tStep := dt, flagALE := ale\<rparr>" s'] sv
    show ?thesis by auto
  next
    case other_scheme
    with ot sv show ?thesis by simp
  qed
qed

lemma makeTimeStep_initialized_ok:
  assumes "initialized s" and "assembledFlag (massAssembler s)"
    and "ale \<longrightarrow> ale_in_range E s"
  shows "\<exists>s'. makeTimeStep E dt ale s = Inr s'"
proof -
  let ?s = "s\<lparr>tStep := dt, flagALE := ale\<rparr>"
  have fl: "assembledFlag (massAssembler ?s)" using assms(2) by simp
  have ar: "flagALE ?s \<longrightarrow> ale_in_range E ?s" using assms(3) by (simp add: ale_in_range_def)
  show ?thesis
  proof (cases "opt_Scheme s")
    case implicit_nonlinear
    from implicitNonlinear_ok [OF fl ar] obtain s2 where s2: "implicitNonlinear E ?s = Inr s2"
      by blast
    from implicitNonlinear_unchanged [OF s2] implicit_nonlinear
    have "opt_Scheme s2 = implicit_nonlinear" by simp
    with s2 implicit_nonlinear assms(1) show ?thesis
      by (simp add: makeTimeStep_def Let_def)
  next
    case implicit_linear
    from implicitLinear_ok [OF fl ar] obtain s2 where "implicitLinear E ?s = Inr s2" by blast
    with implicit_linear assms(1) show ?thesis
      by (simp add: makeTimeStep_def Let_def)
  next
    case other_scheme
    with assms(1) show ?thesis by (simp add: makeTimeStep_def Let_def)
  qed
qed

lemma makeTimeStep_uninitialized:
  assumes "\<not> initialized s"
  shows "makeTimeStep E dt ale s = thenE (initialize E s) (makeTimeStep E dt ale)"
proof (cases "initialize E s")
  case (Inl e)
  with assms show ?thesis by (simp add: makeTimeStep_def)
next
  case (Inr s0)
  from initialize_eq_Inr [OF Inr] have "initialized s0" by simp
  with Inr assms show ?thesis by (simp add: makeTimeStep_def)
qed

lemma saveState_uninitialized:
  assumes "\<not> initialized s"
  shows "saveState E s = thenE (initialize E s) (saveState E)"
proof (cases "initialize E s")
  case (Inl e)
  with assms show ?thesis by (simp add: saveState_def)
next
  case (Inr s0)
  from initialize_eq_Inr [OF Inr] have "initialized s0" by simp
  with Inr assms show ?thesis by (simp add: saveState_def)
qed

lemma saveState_isl:
  "isl (saveState E s) \<longleftrightarrow>
     \<not> initialized s \<and> length (solVector s) \<noteq> stiff_numDofs (stiffAssembler s)"
proof (cases "initialized s")
  case True
  then show ?thesis by (simp add: saveState_def)
next
  case False
  show ?thesis
  proof (cases "initialize E s")
    case (Inl e)
    with False initialize_isl [of E s] show ?thesis by (simp add: saveState_def)
  next
    case (Inr s0)
    with False initialize_isl [of E s] show ?thesis by (simp add: saveState_def)
  qed
qed

lemma makeTimeStep_uninitialized_isl:
  assumes "\<not> initialized s" and "ale \<longrightarrow> ale_in_range E s"
  shows "isl (makeTimeStep E dt ale s) \<longleftrightarrow>
           length (solVector s) \<noteq> stiff_numDofs (stiffAssembler s)"
proof (cases "initialize E s")
  case (Inl e)
  with initialize_isl [of E s] makeTimeStep_uninitialized [OF assms(1), of E dt ale]
  show ?thesis by simp
next
  case (Inr s0)
  from initialize_eq_Inr [OF Inr]
  have i: "initialized s0" and fl: "assembledFlag (massAssembler s0)"
    and pa: "velocityALE s0 = velocityALE s" "patchesALE s0 = patchesALE s"
    by simp_all
  from assms(2) pa have "ale \<longrightarrow> ale_in_range E s0" by (simp add: ale_in_range_def)
  from makeTimeStep_initialized_ok [OF i fl this] obtain s'
    where "makeTimeStep E dt ale s0 = Inr s'" by blast
  with Inr initialize_isl [of E s] makeTimeStep_uninitialized [OF assms(1), of E dt ale]
  show ?thesis by simp
qed

lemma recoverState_eq_Inr:
  "recoverState s = Inr s' \<Longrightarrow> hasSavedState s \<and> hasSavedState s' \<and> recoverState s' = Inr s'"
  by (auto simp: recoverState_def split: if_splits)

lemma recoverState_ok: "hasSavedState s \<Longrightarrow> \<exists>s'. recoverState s = Inr s'"
  by (simp add: recoverState_def)

lemma saveState_eq_Inr: "saveState E s = Inr s1 \<Longrightarrow> hasSavedState s1"
  by (auto simp: saveState_def thenE_eq_Inr)

lemma initialize_assembles:
  assumes "initialize E s = Inr s0"
  shows "(stiff_matrix (stiffAssembler s0), stiff_rhs (stiffAssembler s0)) =
           stiffAssembleSol E (stiffAssembler s) (solVector s) (m_ddof s) \<and>
         mass_fixedDofs (massAssembler s0) = m_ddof s \<and>
         (assembledFlag (massAssembler s) \<longrightarrow>
            mass_matrix (massAssembler s0) = mass_matrix (massAssembler s)) \<and>
         (\<not> assembledFlag (massAssembler s) \<longrightarrow>
            massAssembler s0 = mass_assemble E ((massAssembler s)\<lparr>mass_fixedDofs := m_ddof s\<rparr>))"
  using assms
  by (auto simp: initialize_def Let_def mass_assemble_def split: if_splits prod.splits)

subsection \<open>The instance\<close>

lemma demo_ns_simps:
  "solVector demo_ns = [1, 2]" "\<not> initialized demo_ns"
  "stiff_numDofs (stiffAssembler demo_ns) = 2" "opt_Scheme demo_ns = implicit_nonlinear"
  "patchesALE demo_ns = [(0, 0)]" "velocityALE demo_ns = [[1]]" "\<not> hasSavedState demo_ns"
  by (simp_all add: demo_ns_def gsNsTimeIntegrator_def demo_stiff_def)

lemma demo_initialize: "initialize demo_env demo_ns = Inr demo_init"
  using initialize_isl [of demo_env demo_ns]
  by (cases "initialize demo_env demo_ns") (simp_all add: demo_init_def demo_ns_simps)

lemma demo_init_simps:
  "initialized demo_init" "solVector demo_init = [1, 2]" "oldSolVector demo_init = [1, 2]"
  "oldTimeStep demo_init = 1" "assembledFlag (massAssembler demo_init)"
  "patchesALE demo_init = [(0, 0)]" "velocityALE demo_init = [[1]]"
  "stiff_numDofs (stiffAssembler demo_init) = 2"
  using initialize_eq_Inr [OF demo_initialize] by (simp_all add: demo_ns_simps)

lemma demo_init_values:
  "mass_matrix (massAssembler demo_init) = demo_massM"
  "mass_numDofs (massAssembler demo_init) = 1"
  "opt_Theta demo_init = 1 / 2"
  "m_ddof demo_init = []"
  "stiff_rhs (stiffAssembler demo_init) = [1, 2]"
  "stiff_matrix (stiffAssembler demo_init) = demo_stiffM"
  by (simp_all add: demo_init_def initialize_def demo_ns_def gsNsTimeIntegrator_def
      demo_stiff_def demo_mass_def demo_env_def mass_assemble_def Let_def)

lemma demo_ale_in_range:
  "patchesALE s = [(0, 0)] \<Longrightarrow> velocityALE s = [[1]] \<Longrightarrow> ale_in_range demo_env s"
  by (simp add: ale_in_range_def demo_env_def)

lemma demo_first_step:
  "makeTimeStep demo_env (1 / 100) True demo_ns = Inr demo_after1 \<and>
   solVector demo_after1 = [251 / 50, 101 / 10000] \<and> initialized demo_after1 \<and>
   opt_Scheme demo_after1 = implicit_nonlinear \<and> assembledFlag (massAssembler demo_after1) \<and>
   patchesALE demo_after1 = [(0, 0)] \<and> velocityALE demo_after1 = [[1]]"
proof -
  have "\<exists>s1. makeTimeStep demo_env (1 / 100) True demo_ns = Inr s1 \<and>
      solVector s1 = [251 / 50, 101 / 10000] \<and> initialized s1 \<and>
      opt_Scheme s1 = implicit_nonlinear \<and> assembledFlag (massAssembler s1) \<and>
      patchesALE s1 = [(0, 0)] \<and> velocityALE s1 = [[1]]"
    apply (simp add: makeTimeStep_def demo_ns_simps demo_initialize)
    apply (simp add: implicitNonlinear_def computeConstRHS_def Let_def
        demo_init_simps demo_init_values eliminateFixedDofs_def)
    apply (simp add: demo_env_def numeral_2_eq_2 assemble_def Let_def demo_init_simps
        demo_init_values demo_stiffM_def demo_massM_def vscale_def vadd_def vsub_def
        middleRows_add_def middleRows_sub_def matvec_def block_def mscale_def)
    apply (simp add: demo_init_def initialize_def demo_ns_def gsNsTimeIntegrator_def
        demo_stiff_def demo_mass_def demo_env_def mass_assemble_def Let_def
        vscale_def vadd_def vsub_def middleRows_add_def middleRows_sub_def matvec_def
        block_def mscale_def demo_massM_def demo_stiffM_def)
    done
  then obtain s1 where s1: "makeTimeStep demo_env (1 / 100) True demo_ns = Inr s1"
    and rest: "solVector s1 = [251 / 50, 101 / 10000]" "initialized s1"
      "opt_Scheme s1 = implicit_nonlinear" "assembledFlag (massAssembler s1)"
      "patchesALE s1 = [(0, 0)]" "velocityALE s1 = [[1]]"
    by blast
  from s1 have "demo_after1 = s1" by (simp add: demo_after1_def)
  with s1 rest show ?thesis by simp
qed

subsection \<open>Checkpoints\<close>

text \<open>
  C2. For an initialized integrator, \<open>saveState\<close> followed at once by \<open>recoverState\<close>
  succeeds and gives back the solution vector, the previous solution vector, the fixed
  degrees of freedom, and the cached stiffness matrix, stiffness right-hand side and mass
  right-hand side as they were at the \<open>saveState\<close> call; the recovery changes nothing of
  the integrator that \<open>saveState\<close> returned.
\<close>

theorem saveState_recoverState_roundtrip:
  assumes "initialized s"
  shows "\<exists>s1 s2. saveState E s = Inr s1 \<and> recoverState s1 = Inr s2 \<and>
           solVector s2 = solVector s \<and>
           oldSolVector s2 = oldSolVector s \<and>
           m_ddof s2 = m_ddof s \<and>
           stiff_matrix (stiffAssembler s2) = stiff_matrix (stiffAssembler s) \<and>
           stiff_rhs (stiffAssembler s2) = stiff_rhs (stiffAssembler s) \<and>
           mass_rhs (massAssembler s2) = mass_rhs (massAssembler s) \<and>
           s2 = s1"
  using assms by (simp add: saveState_def recoverState_def)

theorem saveState_recoverState_roundtrip_witness:
  "initialized demo_init \<and>
   (\<exists>s1 s2. saveState demo_env demo_init = Inr s1 \<and> recoverState s1 = Inr s2 \<and>
      solVector s2 = [1, 2] \<and> oldSolVector s2 = [1, 2] \<and>
      stiff_rhs (stiffAssembler s2) = [1, 2])"
proof -
  have i: "initialized demo_init" by (simp add: demo_init_simps)
  from saveState_recoverState_roundtrip [OF i, of demo_env] obtain s1 s2 where
    "saveState demo_env demo_init = Inr s1" "recoverState s1 = Inr s2"
    "solVector s2 = solVector demo_init" "oldSolVector s2 = oldSolVector demo_init"
    "stiff_rhs (stiffAssembler s2) = stiff_rhs (stiffAssembler demo_init)"
    by blast
  with i show ?thesis
    by (simp add: demo_init_simps demo_init_values)
qed

text \<open>
  C3, as the code has it. \<open>recoverState\<close> fails exactly when no state has been saved, as
  on an integrator fresh from its constructor; \<open>saveState\<close> creates the checkpoint, and a
  step leaves the flag alone. \<open>recoverState\<close> does not consume the checkpoint: after it has
  succeeded the checkpoint is still there, and a second \<open>recoverState\<close> succeeds and gives
  the same integrator again.
\<close>

theorem recoverState_keeps_checkpoint:
  "(isl (recoverState s) \<longleftrightarrow> \<not> hasSavedState s) \<and>
   (recoverState s = Inl NoStateSaved \<longleftrightarrow> \<not> hasSavedState s) \<and>
   recoverState (gsNsTimeIntegrator a m v its) = Inl NoStateSaved \<and>
   (\<forall>s1. saveState E s = Inr s1 \<longrightarrow> hasSavedState s1) \<and>
   (\<forall>dt ale s1. makeTimeStep E dt ale s = Inr s1 \<longrightarrow> hasSavedState s1 = hasSavedState s) \<and>
   (\<forall>s'. recoverState s = Inr s' \<longrightarrow> hasSavedState s' \<and> recoverState s' = Inr s')"
proof -
  have "isl (recoverState s) \<longleftrightarrow> \<not> hasSavedState s"
    by (simp add: recoverState_def)
  moreover have "recoverState s = Inl NoStateSaved \<longleftrightarrow> \<not> hasSavedState s"
    by (simp add: recoverState_def)
  moreover have "recoverState (gsNsTimeIntegrator a m v its) = Inl NoStateSaved"
    by (simp add: recoverState_def gsNsTimeIntegrator_def)
  moreover have "\<forall>s1. saveState E s = Inr s1 \<longrightarrow> hasSavedState s1"
    using saveState_eq_Inr by blast
  moreover have "\<forall>dt ale s1. makeTimeStep E dt ale s = Inr s1 \<longrightarrow> hasSavedState s1 = hasSavedState s"
    using makeTimeStep_hasSavedState by blast
  moreover have "\<forall>s'. recoverState s = Inr s' \<longrightarrow> hasSavedState s' \<and> recoverState s' = Inr s'"
    using recoverState_eq_Inr by blast
  ultimately show ?thesis by blast
qed

theorem recoverState_keeps_checkpoint_witness:
  "isl (recoverState demo_ns) \<and>
   makeTimeStep demo_env (1 / 100) True demo_ns = Inr demo_after1 \<and>
   isl (recoverState demo_after1) \<and>
   (\<exists>s1. saveState demo_env demo_ns = Inr s1 \<and> hasSavedState s1 \<and>
      (\<exists>s2. recoverState s1 = Inr s2 \<and> hasSavedState s2 \<and> recoverState s2 = Inr s2))"
proof -
  from demo_first_step have st: "makeTimeStep demo_env (1 / 100) True demo_ns = Inr demo_after1"
    by simp
  with recoverState_keeps_checkpoint [of demo_ns _ _ _ _ demo_env]
  have "hasSavedState demo_after1 = hasSavedState demo_ns" by blast
  with recoverState_keeps_checkpoint [of demo_after1]
  have b: "isl (recoverState demo_after1)" by (simp add: demo_ns_simps)
  have a: "isl (recoverState demo_ns)"
    using recoverState_keeps_checkpoint [of demo_ns] by (simp add: demo_ns_simps)
  have "\<not> isl (saveState demo_env demo_ns)"
    by (simp add: saveState_isl demo_ns_simps)
  then obtain s1 where s1: "saveState demo_env demo_ns = Inr s1"
    by (cases "saveState demo_env demo_ns") simp_all
  with recoverState_keeps_checkpoint [of demo_ns _ _ _ _ demo_env]
  have h1: "hasSavedState s1" by blast
  with recoverState_keeps_checkpoint [of s1] have "\<not> isl (recoverState s1)" by blast
  then obtain s2 where s2: "recoverState s1 = Inr s2"
    by (cases "recoverState s1") simp_all
  with recoverState_keeps_checkpoint [of s1]
  have "hasSavedState s2 \<and> recoverState s2 = Inr s2" by blast
  with a st b s1 h1 s2 show ?thesis by blast
qed

text \<open>
  The claim C3 as stated fails: on the instance, \<open>saveState\<close> followed by two
  \<open>recoverState\<close> calls succeeds.
\<close>

theorem recoverState_twice_counterexample:
  "\<not> isl (thenE (thenE (saveState demo_env demo_ns) recoverState) recoverState)"
proof -
  have "\<not> isl (saveState demo_env demo_ns)"
    by (simp add: saveState_isl demo_ns_simps)
  then obtain s1 where s1: "saveState demo_env demo_ns = Inr s1"
    by (cases "saveState demo_env demo_ns") simp_all
  from recoverState_ok [OF saveState_eq_Inr [OF s1]] obtain s2
    where s2: "recoverState s1 = Inr s2" by blast
  from recoverState_eq_Inr [OF s2] have "recoverState s2 = Inr s2" by simp
  with s1 s2 show ?thesis by simp
qed

subsection \<open>The data of the previous step\<close>

text \<open>
  C4, as the code has it. After a completed \<open>makeTimeStep\<close> under the implicit-linear
  scheme, \<open>oldSolVector\<close> is the solution vector from before the step and \<open>oldTimeStep\<close> is
  the step size of the call, so that the extrapolation of the next step is
  \<open>solVector + dt'/dt * (solVector - solution before the step)\<close>. Under the
  implicit-nonlinear scheme the step writes neither: both keep the values they had, which
  after the implicit \<open>initialize\<close> of a first call are the initial solution vector and \<open>1\<close>.
\<close>

theorem makeTimeStep_previous_step_data:
  assumes "makeTimeStep E dt ale s = Inr s'"
  shows "(opt_Scheme s = implicit_linear \<longrightarrow>
            oldSolVector s' = solVector s \<and> oldTimeStep s' = dt \<and>
            extrapolated dt' s' =
              vadd (solVector s') (vscale (dt' / dt) (vsub (solVector s') (solVector s)))) \<and>
         (opt_Scheme s = implicit_nonlinear \<longrightarrow>
            oldSolVector s' = (if initialized s then oldSolVector s else solVector s) \<and>
            oldTimeStep s' = (if initialized s then oldTimeStep s else 1))"
  using makeTimeStep_old [OF assms] by (simp add: extrapolated_def)

theorem makeTimeStep_previous_step_data_witness:
  "(\<exists>s'. makeTimeStep demo_env (1 / 100) True (demo_ns\<lparr>opt_Scheme := implicit_linear\<rparr>) = Inr s' \<and>
      oldSolVector s' = [1, 2] \<and> oldTimeStep s' = 1 / 100) \<and>
   (\<exists>s'. makeTimeStep demo_env (1 / 100) True demo_ns = Inr s' \<and>
      oldSolVector s' = [1, 2] \<and> oldTimeStep s' = 1)"
proof -
  let ?l = "demo_ns\<lparr>opt_Scheme := implicit_linear\<rparr>"
  have "\<not> isl (makeTimeStep demo_env (1 / 100) True ?l)"
    by (subst makeTimeStep_uninitialized_isl)
       (simp_all add: demo_ns_simps demo_ale_in_range)
  then obtain s1 where s1: "makeTimeStep demo_env (1 / 100) True ?l = Inr s1"
    by (cases "makeTimeStep demo_env (1 / 100) True ?l") simp_all
  from makeTimeStep_previous_step_data [OF s1]
  have l: "oldSolVector s1 = [1, 2] \<and> oldTimeStep s1 = 1 / 100"
    by (simp add: demo_ns_simps)
  have "\<not> isl (makeTimeStep demo_env (1 / 100) True demo_ns)"
    by (subst makeTimeStep_uninitialized_isl)
       (simp_all add: demo_ns_simps demo_ale_in_range)
  then obtain s2 where s2: "makeTimeStep demo_env (1 / 100) True demo_ns = Inr s2"
    by (cases "makeTimeStep demo_env (1 / 100) True demo_ns") simp_all
  from makeTimeStep_previous_step_data [OF s2]
  have "oldSolVector s2 = [1, 2] \<and> oldTimeStep s2 = 1"
    by (simp add: demo_ns_simps)
  with s1 l s2 show ?thesis by blast
qed

text \<open>
  The claim C4 as stated fails for the implicit-nonlinear scheme. On the fresh integrator
  (default scheme) a first step of size \<open>1/100\<close> completes and leaves \<open>oldTimeStep\<close> at \<open>1\<close>;
  a second step of the same size completes and leaves \<open>oldSolVector\<close> at the initial
  solution \<open>[1, 2]\<close>, not at the solution \<open>[251/50, 101/10000]\<close> from before that step, and
  \<open>oldTimeStep\<close> at \<open>1\<close>.
\<close>

theorem nonlinear_step_keeps_old_data_counterexample:
  "opt_Scheme demo_ns = implicit_nonlinear \<and>
   makeTimeStep demo_env (1 / 100) True demo_ns = Inr demo_after1 \<and>
   oldTimeStep demo_after1 = 1 \<and>
   solVector demo_after1 = [251 / 50, 101 / 10000] \<and>
   \<not> isl (makeTimeStep demo_env (1 / 100) True demo_after1) \<and>
   oldSolVector (projr (makeTimeStep demo_env (1 / 100) True demo_after1)) = [1, 2] \<and>
   oldTimeStep (projr (makeTimeStep demo_env (1 / 100) True demo_after1)) = 1"
proof -
  from demo_first_step have
    s1: "makeTimeStep demo_env (1 / 100) True demo_ns = Inr demo_after1" and
    sol: "solVector demo_after1 = [251 / 50, 101 / 10000]" and
    i: "initialized demo_after1" and sch: "opt_Scheme demo_after1 = implicit_nonlinear" and
    fl: "assembledFlag (massAssembler demo_after1)" and
    pa: "patchesALE demo_after1 = [(0, 0)]" "velocityALE demo_after1 = [[1]]"
    by simp_all
  from makeTimeStep_old [OF s1] have old1:
    "oldSolVector demo_after1 = [1, 2]" "oldTimeStep demo_after1 = 1"
    by (simp_all add: demo_ns_simps)
  have "True \<longrightarrow> ale_in_range demo_env demo_after1"
    using pa by (simp add: demo_ale_in_range)
  from makeTimeStep_initialized_ok [OF i fl this] obtain s2 where
    s2: "makeTimeStep demo_env (1 / 100) True demo_after1 = Inr s2" by blast
  from makeTimeStep_old [OF s2] i sch old1 have
    "oldSolVector s2 = [1, 2]" "oldTimeStep s2 = 1"
    by simp_all
  with s1 sol old1 s2 show ?thesis
    by (simp add: demo_ns_simps)
qed

subsection \<open>Calls on an integrator that is not initialized\<close>

text \<open>
  C10. On an integrator that is not initialized, \<open>saveState\<close> and \<open>makeTimeStep\<close> first run
  \<open>initialize\<close> and then proceed as on the initialized integrator. \<open>initialize\<close> assembles
  the stiffness system at the current solution vector and assembles the mass system unless
  it is assembled already. \<open>saveState\<close> fails exactly when the length of the solution
  vector differs from the number of free degrees of freedom of the stiffness assembler; so
  does \<open>makeTimeStep\<close>, for an ALE correspondence whose patch indices exist.
\<close>

theorem uninitialized_calls_initialize_first:
  assumes "\<not> initialized s"
  shows "saveState E s = thenE (initialize E s) (saveState E) \<and>
         makeTimeStep E dt ale s = thenE (initialize E s) (makeTimeStep E dt ale) \<and>
         (\<forall>s0. initialize E s = Inr s0 \<longrightarrow>
            initialized s0 \<and>
            (stiff_matrix (stiffAssembler s0), stiff_rhs (stiffAssembler s0)) =
              stiffAssembleSol E (stiffAssembler s) (solVector s) (m_ddof s) \<and>
            assembledFlag (massAssembler s0) \<and>
            (assembledFlag (massAssembler s) \<longrightarrow>
               mass_matrix (massAssembler s0) = mass_matrix (massAssembler s)) \<and>
            (\<not> assembledFlag (massAssembler s) \<longrightarrow>
               massAssembler s0 = mass_assemble E ((massAssembler s)\<lparr>mass_fixedDofs := m_ddof s\<rparr>))) \<and>
         (isl (saveState E s) \<longleftrightarrow> length (solVector s) \<noteq> stiff_numDofs (stiffAssembler s)) \<and>
         ((ale \<longrightarrow> ale_in_range E s) \<longrightarrow>
            (isl (makeTimeStep E dt ale s) \<longleftrightarrow>
               length (solVector s) \<noteq> stiff_numDofs (stiffAssembler s)))"
proof -
  have "saveState E s = thenE (initialize E s) (saveState E)"
    using assms by (rule saveState_uninitialized)
  moreover have "makeTimeStep E dt ale s = thenE (initialize E s) (makeTimeStep E dt ale)"
    using assms by (rule makeTimeStep_uninitialized)
  moreover have "\<forall>s0. initialize E s = Inr s0 \<longrightarrow>
            initialized s0 \<and>
            (stiff_matrix (stiffAssembler s0), stiff_rhs (stiffAssembler s0)) =
              stiffAssembleSol E (stiffAssembler s) (solVector s) (m_ddof s) \<and>
            assembledFlag (massAssembler s0) \<and>
            (assembledFlag (massAssembler s) \<longrightarrow>
               mass_matrix (massAssembler s0) = mass_matrix (massAssembler s)) \<and>
            (\<not> assembledFlag (massAssembler s) \<longrightarrow>
               massAssembler s0 = mass_assemble E ((massAssembler s)\<lparr>mass_fixedDofs := m_ddof s\<rparr>))"
    using initialize_eq_Inr [of E s] initialize_assembles [of E s] by blast
  moreover have "isl (saveState E s) \<longleftrightarrow> length (solVector s) \<noteq> stiff_numDofs (stiffAssembler s)"
    using assms by (simp add: saveState_isl)
  moreover have "(ale \<longrightarrow> ale_in_range E s) \<longrightarrow>
            (isl (makeTimeStep E dt ale s) \<longleftrightarrow>
               length (solVector s) \<noteq> stiff_numDofs (stiffAssembler s))"
    using makeTimeStep_uninitialized_isl [OF assms] by blast
  ultimately show ?thesis by blast
qed

theorem uninitialized_calls_initialize_first_witness:
  "\<not> initialized demo_ns \<and> ale_in_range demo_env demo_ns \<and>
   \<not> isl (saveState demo_env demo_ns) \<and>
   \<not> isl (makeTimeStep demo_env (1 / 100) True demo_ns) \<and>
   isl (makeTimeStep demo_env (1 / 100) True (demo_ns\<lparr>solVector := [1]\<rparr>)) \<and>
   initialize demo_env demo_ns = Inr demo_init \<and> initialized demo_init \<and>
   assembledFlag (massAssembler demo_init)"
proof -
  have n: "\<not> initialized demo_ns" by (simp add: demo_ns_simps)
  have r: "ale_in_range demo_env demo_ns" by (simp add: demo_ns_simps demo_ale_in_range)
  let ?b = "demo_ns\<lparr>solVector := [1]\<rparr>"
  have nb: "\<not> initialized ?b" by (simp add: demo_ns_simps)
  have rb: "ale_in_range demo_env ?b" by (simp add: demo_ns_simps demo_ale_in_range)
  from uninitialized_calls_initialize_first [OF nb, of demo_env "1 / 100" True] rb
  have "isl (makeTimeStep demo_env (1 / 100) True ?b) \<longleftrightarrow>
          length (solVector ?b) \<noteq> stiff_numDofs (stiffAssembler ?b)"
    by blast
  then have b: "isl (makeTimeStep demo_env (1 / 100) True ?b)"
    by (simp add: demo_ns_simps)
  from uninitialized_calls_initialize_first [OF n, of demo_env "1 / 100" True] r
  have "isl (saveState demo_env demo_ns) \<longleftrightarrow>
          length (solVector demo_ns) \<noteq> stiff_numDofs (stiffAssembler demo_ns)"
    and "isl (makeTimeStep demo_env (1 / 100) True demo_ns) \<longleftrightarrow>
          length (solVector demo_ns) \<noteq> stiff_numDofs (stiffAssembler demo_ns)"
    and "initialize demo_env demo_ns = Inr demo_init \<longrightarrow>
          initialized demo_init \<and> assembledFlag (massAssembler demo_init)"
    by blast+
  then have "\<not> isl (saveState demo_env demo_ns)"
    "\<not> isl (makeTimeStep demo_env (1 / 100) True demo_ns)"
    "initialized demo_init \<and> assembledFlag (massAssembler demo_init)"
    by (simp_all add: demo_ns_simps demo_initialize)
  with n r b demo_initialize show ?thesis by blast
qed

lemma demo_step_simps:
  "flagALE demo_step" "tStep demo_step = 1 / 100" "assembledFlag (massAssembler demo_step)"
  "patchesALE demo_step = [(0, 0)]" "velocityALE demo_step = [[1]]"
  "mass_numDofs (massAssembler demo_step) = 1" "stiff_numDofs (stiffAssembler demo_step) = 2"
  "mass_matrix (massAssembler demo_step) = demo_massM" "opt_Theta demo_step = 1 / 2"
  "solVector demo_step = [1, 2]" "m_ddof demo_step = []"
  by (simp_all add: demo_step_def demo_init_simps demo_init_values)

lemma demo_step_assemblers:
  "stiffAssembler demo_step = stiffAssembler demo_init"
  "massAssembler demo_step = massAssembler demo_init"
  by (simp_all add: demo_step_def)

lemma demo_computeConstRHS:
  "\<exists>s1. computeConstRHS demo_step = Inr s1 \<and> constRHS s1 = [5, 1 / 100]"
  apply (simp add: computeConstRHS_def Let_def demo_step_simps demo_step_assemblers
      demo_init_values eliminateFixedDofs_def demo_init_simps)
  apply (simp add: demo_init_def initialize_def demo_ns_def gsNsTimeIntegrator_def
      demo_stiff_def demo_mass_def demo_env_def mass_assemble_def Let_def
      vscale_def vadd_def vsub_def middleRows_add_def middleRows_sub_def matvec_def
      block_def mscale_def demo_massM_def demo_stiffM_def)
  done

lemma demo_assemble_ok: "\<exists>s'. assemble demo_env x d demo_step = Inr s'"
  by (rule assemble_ok) (simp add: demo_step_simps demo_ale_in_range)

subsection \<open>The block structure of the system matrix\<close>

lemma assemble_system_matrix:
  assumes "mass_numDofs (massAssembler s) \<le> stiff_numDofs (stiffAssembler s)"
    and "assemble E x d s = Inr s'"
  shows "nrows (m_system_matrix s') = nrows (stiff_matrix (stiffAssembler s')) \<and>
         ncols (m_system_matrix s') = ncols (stiff_matrix (stiffAssembler s')) \<and>
         coeff (m_system_matrix s') i j =
           (if i < mass_numDofs (massAssembler s') \<and> j < mass_numDofs (massAssembler s')
            then coeff (mass_matrix (massAssembler s')) i j +
                 tStep s' * opt_Theta s' * coeff (stiff_matrix (stiffAssembler s')) i j
            else tStep s' * coeff (stiff_matrix (stiffAssembler s')) i j)"
proof -
  from assemble_eq_Inr [OF assms(2)] obtain A where
    A: "stiff_matrix (stiffAssembler s') = A" and
    m: "m_system_matrix s' =
          blendVelocityBlock (opt_Theta s) (mass_numDofs (massAssembler s))
            (stiff_numDofs (stiffAssembler s)) (mass_matrix (massAssembler s))
            (mscale (tStep s) A)" and
    fr: "assembly_frame s s'"
    by blast
  from fr have eqs: "massAssembler s' = massAssembler s" "tStep s' = tStep s"
    "opt_Theta s' = opt_Theta s"
    by (simp_all add: assembly_frame_def)
  show ?thesis
    unfolding m A [symmetric] eqs
    using blendVelocityBlock_coeff [OF assms(1)] blendVelocityBlock_dims
    by simp
qed

lemma implicitLinear_system_matrix:
  assumes "mass_numDofs (massAssembler s) \<le> stiff_numDofs (stiffAssembler s)"
    and "implicitLinear E s = Inr s'"
  shows "nrows (m_system_matrix s') = nrows (stiff_matrix (stiffAssembler s')) \<and>
         ncols (m_system_matrix s') = ncols (stiff_matrix (stiffAssembler s')) \<and>
         coeff (m_system_matrix s') i j =
           (if i < mass_numDofs (massAssembler s') \<and> j < mass_numDofs (massAssembler s')
            then coeff (mass_matrix (massAssembler s')) i j +
                 tStep s' * opt_Theta s' * coeff (stiff_matrix (stiffAssembler s')) i j
            else tStep s' * coeff (stiff_matrix (stiffAssembler s')) i j)"
proof -
  from implicitLinear_eq_Inr [OF assms(2)] obtain A where
    A: "stiff_matrix (stiffAssembler s') = A" and
    m: "m_system_matrix s' =
          blendVelocityBlock (opt_Theta s) (mass_numDofs (massAssembler s))
            (stiff_numDofs (stiffAssembler s)) (mass_matrix (massAssembler s))
            (mscale (tStep s) A)" and
    eqs: "mass_matrix (massAssembler s') = mass_matrix (massAssembler s)"
      "mass_numDofs (massAssembler s') = mass_numDofs (massAssembler s)"
      "tStep s' = tStep s" "opt_Theta s' = opt_Theta s"
    by blast
  show ?thesis
    unfolding m A [symmetric] eqs
    using blendVelocityBlock_coeff [OF assms(1)] blendVelocityBlock_dims
    by simp
qed

text \<open>
  C7. With the velocity block inside the system (\<open>numDofsVel \<le> numDofs\<close>), the system
  matrix that \<open>assemble\<close> and \<open>implicitLinear\<close> leave behind has the dimensions of the
  stiffness matrix; its entry \<open>(i, j)\<close> is \<open>M i j + dt * theta * A i j\<close> when both indices are
  velocity indices, and \<open>dt * A i j\<close> in every pressure row and every pressure column, where
  \<open>A\<close> is the stiffness matrix just assembled, \<open>M\<close> the mass matrix and \<open>dt\<close> the step size.
\<close>

theorem system_matrix_block_structure:
  assumes "mass_numDofs (massAssembler s) \<le> stiff_numDofs (stiffAssembler s)"
    and "assemble E x d s = Inr s' \<or> implicitLinear E s = Inr s'"
  shows "nrows (m_system_matrix s') = nrows (stiff_matrix (stiffAssembler s')) \<and>
         ncols (m_system_matrix s') = ncols (stiff_matrix (stiffAssembler s')) \<and>
         coeff (m_system_matrix s') i j =
           (if i < mass_numDofs (massAssembler s') \<and> j < mass_numDofs (massAssembler s')
            then coeff (mass_matrix (massAssembler s')) i j +
                 tStep s' * opt_Theta s' * coeff (stiff_matrix (stiffAssembler s')) i j
            else tStep s' * coeff (stiff_matrix (stiffAssembler s')) i j)"
  using assms(2) assemble_system_matrix [OF assms(1)] implicitLinear_system_matrix [OF assms(1)]
  by blast

theorem system_matrix_block_structure_witness:
  "mass_numDofs (massAssembler demo_step) \<le> stiff_numDofs (stiffAssembler demo_step) \<and>
   (\<exists>s'. assemble demo_env [1, 2] [] demo_step = Inr s' \<and>
      coeff (m_system_matrix s') 0 0 = 1001 / 200 \<and>
      coeff (m_system_matrix s') 0 1 = 1 / 50 \<and>
      coeff (m_system_matrix s') 1 0 = 3 / 100 \<and>
      coeff (m_system_matrix s') 1 1 = 1 / 25) \<and>
   (\<exists>s'. implicitLinear demo_env demo_step = Inr s' \<and>
      coeff (m_system_matrix s') 0 0 = 1001 / 200 \<and>
      coeff (m_system_matrix s') 1 1 = 1 / 25)"
proof -
  have "\<exists>t. implicitLinear demo_env demo_step = Inr t"
    by (rule implicitLinear_ok) (simp_all add: demo_step_simps demo_ale_in_range)
  then obtain t where t: "implicitLinear demo_env demo_step = Inr t" by blast
  from implicitLinear_eq_Inr [OF t] have
    tA: "stiff_matrix (stiffAssembler t) = demo_stiffM" and
    teqs: "mass_matrix (massAssembler t) = demo_massM" "mass_numDofs (massAssembler t) = 1"
      "tStep t = 1 / 100" "opt_Theta t = 1 / 2"
    by (auto simp: demo_env_def demo_step_simps)
  have le: "mass_numDofs (massAssembler demo_step) \<le> stiff_numDofs (stiffAssembler demo_step)"
    by (simp add: demo_step_simps)
  from demo_assemble_ok obtain s' where s': "assemble demo_env [1, 2] [] demo_step = Inr s'"
    by blast
  from assemble_eq_Inr [OF s'] have
    A: "stiff_matrix (stiffAssembler s') = demo_stiffM" and fr: "assembly_frame demo_step s'"
    by (auto simp: demo_env_def)
  from fr have eqs: "massAssembler s' = massAssembler demo_step" "tStep s' = 1 / 100"
    "opt_Theta s' = 1 / 2"
    by (simp_all add: assembly_frame_def demo_step_simps)
  have c: "coeff (m_system_matrix s') i j =
           (if i < 1 \<and> j < 1
            then coeff demo_massM i j + 1 / 100 * (1 / 2) * coeff demo_stiffM i j
            else 1 / 100 * coeff demo_stiffM i j)" for i j
    using system_matrix_block_structure [OF le disjI1 [OF s'], of i j]
    by (simp add: A eqs demo_step_simps)
  have ct: "coeff (m_system_matrix t) i j =
           (if i < 1 \<and> j < 1
            then coeff demo_massM i j + 1 / 100 * (1 / 2) * coeff demo_stiffM i j
            else 1 / 100 * coeff demo_stiffM i j)" for i j
    using system_matrix_block_structure [OF le disjI2 [OF t], of i j]
    by (simp add: tA teqs)
  have "coeff (m_system_matrix s') 0 0 = 1001 / 200" "coeff (m_system_matrix s') 0 1 = 1 / 50"
    "coeff (m_system_matrix s') 1 0 = 3 / 100" "coeff (m_system_matrix s') 1 1 = 1 / 25"
    "coeff (m_system_matrix t) 0 0 = 1001 / 200" "coeff (m_system_matrix t) 1 1 = 1 / 25"
    by (simp_all add: c ct demo_massM_def demo_stiffM_def)
  with le s' t show ?thesis by blast
qed

subsection \<open>The ALE correction in every assembly\<close>

lemma assemble_ale_assembly:
  assumes "flagALE s" and "assemble E x d s = Inr s'"
  shows "ale_assembly E s x d s'"
proof -
  from assemble_eq_Inr [OF assms(2)] assms(1) obtain velocity pressure velocity' where
    vp: "constructSolution E (stiffAssembler s) x d = (velocity, pressure)" and
    v': "subtractALE (velocityALE s) (patchesALE s) velocity = Inr velocity'" and
    Af: "stiffAssembleVP E (stiffAssembler s) velocity' pressure =
           (stiff_matrix (stiffAssembler s'), stiff_rhs (stiffAssembler s'))"
    by auto
  have "length velocity' = length velocity"
    using v' by (rule subtractALE_length)
  moreover have "\<forall>p<length velocity.
      velocity' ! p = aleCorrected (velocityALE s) (patchesALE s) velocity p"
    using subtractALE_nth [OF v'] by blast
  ultimately show ?thesis
    unfolding ale_assembly_def using vp Af by blast
qed

lemma implicitNonlinear_trace:
  assumes "implicitNonlinear E s = Inr s'"
  shows "\<exists>s1 x k s2 tr.
           computeConstRHS s = Inr s1 \<and>
           gsIterative_solve E (maxIters E) 0 (solVector s1) (m_ddof s1) s1 [] = Inr (x, k, s2, tr) \<and>
           length tr = k \<and> constRHS s' = constRHS s1 \<and>
           (\<forall>xt\<in>set tr. \<exists>p. assembly_frame s1 p \<and>
                assemble E (fst xt) (m_ddof s1) p = Inr (snd xt))"
proof -
  from implicitNonlinear_eq_Inr [OF assms] obtain s1 x k s2 tr where
    s1: "computeConstRHS s = Inr s1" and
    it: "gsIterative_solve E (maxIters E) 0 (solVector s1) (m_ddof s1) s1 [] = Inr (x, k, s2, tr)" and
    s': "s' = s2\<lparr>solVector := x, m_ddof := stiff_fixedDofs (stiffAssembler s2), numIters := k\<rparr>"
    by blast
  from gsIterative_solve_chain [OF it] have
    len: "length tr = k" and ch: "assembled_chain E (m_ddof s1) s1 tr" and
    fr: "assembly_frame s1 s2"
    by auto
  have "constRHS s' = constRHS s1"
    using fr by (simp add: s' assembly_frame_def)
  moreover have "\<forall>xt\<in>set tr. \<exists>p. assembly_frame s1 p \<and>
                assemble E (fst xt) (m_ddof s1) p = Inr (snd xt)"
    using assembled_chain_frame [OF ch] by blast
  ultimately show ?thesis
    using s1 it len by blast
qed

lemma gsIterative_solve_never_converged:
  assumes "\<And>a r k x x' b. \<not> converged E a r k x x' b"
  shows "gsIterative_solve E n k x d s tr = Inr (x', k', s', tr') \<Longrightarrow> k' = k + n"
proof (induction n arbitrary: k x s tr)
  case 0
  then show ?case by simp
next
  case (Suc n)
  from Suc.prems obtain s1 where s1: "assemble E x d s = Inr s1"
    by (auto split: sum.splits)
  with Suc.prems assms
  have "gsIterative_solve E n (Suc k) (luSolve E (m_system_matrix s1) (m_system_rhs s1)) d s1
          (tr @ [(x, s1)]) = Inr (x', k', s', tr')"
    by (simp add: Let_def)
  from Suc.IH [OF this] show ?case by simp
qed

lemma demo_never_converged: "\<not> converged demo_env a r k x x' b"
  by (simp add: demo_env_def)

lemma demo_maxIters: "maxIters demo_env = 2"
  by (simp add: demo_env_def)

lemma demo_implicitNonlinear_ok: "\<exists>s'. implicitNonlinear demo_env demo_step = Inr s'"
  by (rule implicitNonlinear_ok) (simp_all add: demo_step_simps demo_ale_in_range)

text \<open>
  C8. With the ALE flag set, every call of \<open>assemble\<close> constructs the velocity from the
  trial solution, subtracts the mesh velocity and only then calls the stiffness assembler,
  with the corrected velocity. In the implicit-nonlinear step every iteration of the
  solver is such a call, with the same mesh velocity and the same correspondence. The
  corrected patch \<open>p\<close> is the constructed one minus the mesh-velocity patch \<open>q\<close> for every
  entry \<open>(p, q)\<close> of the correspondence: a patch that is not listed is unchanged, and a
  patch listed once loses exactly its partner.
\<close>

theorem ale_correction_in_every_assembly:
  assumes "flagALE s"
  shows "(\<forall>x d s'. assemble E x d s = Inr s' \<longrightarrow> ale_assembly E s x d s') \<and>
         (\<forall>s''. implicitNonlinear E s = Inr s'' \<longrightarrow>
            (\<exists>s1 x k s2 tr.
               computeConstRHS s = Inr s1 \<and>
               gsIterative_solve E (maxIters E) 0 (solVector s1) (m_ddof s1) s1 [] =
                 Inr (x, k, s2, tr) \<and>
               length tr = k \<and>
               (\<forall>xt\<in>set tr. \<exists>p.
                  velocityALE p = velocityALE s \<and> patchesALE p = patchesALE s \<and>
                  assemble E (fst xt) (m_ddof s1) p = Inr (snd xt) \<and>
                  ale_assembly E p (fst xt) (m_ddof s1) (snd xt)))) \<and>
         (\<forall>w its v p. p \<notin> fst ` set its \<longrightarrow> aleCorrected w its v p = v ! p) \<and>
         (\<forall>w its v p q. distinct (map fst its) \<and> (p, q) \<in> set its \<longrightarrow>
            aleCorrected w its v p = vsub (v ! p) (w ! q))"
proof -
  have "\<forall>x d s'. assemble E x d s = Inr s' \<longrightarrow> ale_assembly E s x d s'"
    using assemble_ale_assembly [OF assms] by blast
  moreover have "\<forall>s''. implicitNonlinear E s = Inr s'' \<longrightarrow>
            (\<exists>s1 x k s2 tr.
               computeConstRHS s = Inr s1 \<and>
               gsIterative_solve E (maxIters E) 0 (solVector s1) (m_ddof s1) s1 [] =
                 Inr (x, k, s2, tr) \<and>
               length tr = k \<and>
               (\<forall>xt\<in>set tr. \<exists>p.
                  velocityALE p = velocityALE s \<and> patchesALE p = patchesALE s \<and>
                  assemble E (fst xt) (m_ddof s1) p = Inr (snd xt) \<and>
                  ale_assembly E p (fst xt) (m_ddof s1) (snd xt)))"
  proof (intro allI impI)
    fix s''
    assume "implicitNonlinear E s = Inr s''"
    from implicitNonlinear_trace [OF this] obtain s1 x k s2 tr where
      s1: "computeConstRHS s = Inr s1" and
      it: "gsIterative_solve E (maxIters E) 0 (solVector s1) (m_ddof s1) s1 [] = Inr (x, k, s2, tr)" and
      len: "length tr = k" and
      tr: "\<forall>xt\<in>set tr. \<exists>p. assembly_frame s1 p \<and>
                assemble E (fst xt) (m_ddof s1) p = Inr (snd xt)"
      by blast
    from computeConstRHS_eq_Inr [OF s1] assms have
      s1eq: "flagALE s1" "velocityALE s1 = velocityALE s" "patchesALE s1 = patchesALE s"
      by simp_all
    have "\<forall>xt\<in>set tr. \<exists>p.
            velocityALE p = velocityALE s \<and> patchesALE p = patchesALE s \<and>
            assemble E (fst xt) (m_ddof s1) p = Inr (snd xt) \<and>
            ale_assembly E p (fst xt) (m_ddof s1) (snd xt)"
    proof
      fix xt
      assume "xt \<in> set tr"
      with tr obtain p where p: "assembly_frame s1 p"
        "assemble E (fst xt) (m_ddof s1) p = Inr (snd xt)"
        by blast
      from p(1) s1eq have pe: "flagALE p" "velocityALE p = velocityALE s"
        "patchesALE p = patchesALE s"
        by (simp_all add: assembly_frame_def)
      from assemble_ale_assembly [OF pe(1) p(2)] pe p(2)
      show "\<exists>p. velocityALE p = velocityALE s \<and> patchesALE p = patchesALE s \<and>
            assemble E (fst xt) (m_ddof s1) p = Inr (snd xt) \<and>
            ale_assembly E p (fst xt) (m_ddof s1) (snd xt)"
        by blast
    qed
    with s1 it len
    show "\<exists>s1 x k s2 tr.
               computeConstRHS s = Inr s1 \<and>
               gsIterative_solve E (maxIters E) 0 (solVector s1) (m_ddof s1) s1 [] =
                 Inr (x, k, s2, tr) \<and>
               length tr = k \<and>
               (\<forall>xt\<in>set tr. \<exists>p.
                  velocityALE p = velocityALE s \<and> patchesALE p = patchesALE s \<and>
                  assemble E (fst xt) (m_ddof s1) p = Inr (snd xt) \<and>
                  ale_assembly E p (fst xt) (m_ddof s1) (snd xt))"
      by blast
  qed
  moreover have "\<forall>w its v p. p \<notin> fst ` set its \<longrightarrow> aleCorrected w its v p = v ! p"
    using aleCorrected_unlisted by blast
  moreover have "\<forall>w its v p q. distinct (map fst its) \<and> (p, q) \<in> set its \<longrightarrow>
            aleCorrected w its v p = vsub (v ! p) (w ! q)"
    using aleCorrected_listed_once by blast
  ultimately show ?thesis by blast
qed

theorem ale_correction_in_every_assembly_witness:
  "flagALE demo_step \<and>
   aleCorrected [[1]] [(0, 0)] [[5], [7]] 1 = [7] \<and>
   aleCorrected [[1]] [(0, 0)] [[5], [7]] 0 = vsub [5] [1] \<and>
   (\<exists>s'. assemble demo_env [1, 2] [] demo_step = Inr s' \<and>
      stiff_rhs (stiffAssembler s') = [0, 2]) \<and>
   (\<exists>s'' s1 x s2 tr.
      implicitNonlinear demo_env demo_step = Inr s'' \<and>
      computeConstRHS demo_step = Inr s1 \<and>
      gsIterative_solve demo_env 2 0 (solVector s1) (m_ddof s1) s1 [] = Inr (x, 2, s2, tr) \<and>
      length tr = 2 \<and>
      (\<exists>p. assemble demo_env (fst (tr ! 0)) (m_ddof s1) p = Inr (snd (tr ! 0)) \<and>
           ale_assembly demo_env p (fst (tr ! 0)) (m_ddof s1) (snd (tr ! 0))) \<and>
      (\<exists>p. assemble demo_env (fst (tr ! 1)) (m_ddof s1) p = Inr (snd (tr ! 1)) \<and>
           ale_assembly demo_env p (fst (tr ! 1)) (m_ddof s1) (snd (tr ! 1))))"
proof -
  have f: "flagALE demo_step" by (simp add: demo_step_simps)
  from demo_assemble_ok obtain s' where s': "assemble demo_env [1, 2] [] demo_step = Inr s'"
    by blast
  from ale_correction_in_every_assembly [OF f, of demo_env] s'
  have "ale_assembly demo_env demo_step [1, 2] [] s'" by blast
  then obtain velocity pressure velocity' where
    vp: "constructSolution demo_env (stiffAssembler demo_step) [1, 2] [] = (velocity, pressure)" and
    len: "length velocity' = length velocity" and
    nth: "\<forall>p<length velocity.
           velocity' ! p = aleCorrected (velocityALE demo_step) (patchesALE demo_step) velocity p" and
    Af: "stiffAssembleVP demo_env (stiffAssembler demo_step) velocity' pressure =
          (stiff_matrix (stiffAssembler s'), stiff_rhs (stiffAssembler s'))"
    unfolding ale_assembly_def by blast
  from vp have v: "velocity = [[1]]" "pressure = [[2]]"
    by (simp_all add: demo_env_def)
  from len v have "length velocity' = 1" by simp
  moreover from nth v have "velocity' ! 0 = [0]"
    by (simp add: demo_step_simps aleCorrected_def vsub_def)
  ultimately have "velocity' = [[0]]"
    by (cases velocity') simp_all
  with Af v have rhs: "stiff_rhs (stiffAssembler s') = [0, 2]"
    by (simp add: demo_env_def)
  from demo_implicitNonlinear_ok obtain s'' where
    s'': "implicitNonlinear demo_env demo_step = Inr s''" by blast
  from ale_correction_in_every_assembly [OF f, of demo_env] s'' obtain s1 x k s2 tr where
    s1: "computeConstRHS demo_step = Inr s1" and
    it: "gsIterative_solve demo_env (maxIters demo_env) 0 (solVector s1) (m_ddof s1) s1 [] =
           Inr (x, k, s2, tr)" and
    lk: "length tr = k" and
    all: "\<forall>xt\<in>set tr. \<exists>p.
            velocityALE p = velocityALE demo_step \<and> patchesALE p = patchesALE demo_step \<and>
            assemble demo_env (fst xt) (m_ddof s1) p = Inr (snd xt) \<and>
            ale_assembly demo_env p (fst xt) (m_ddof s1) (snd xt)"
    by blast
  from gsIterative_solve_never_converged [OF demo_never_converged it]
  have k: "k = 2" by (simp add: demo_maxIters)
  with lk have "tr ! 0 \<in> set tr" "tr ! 1 \<in> set tr" by simp_all
  with all have
    "\<exists>p. assemble demo_env (fst (tr ! 0)) (m_ddof s1) p = Inr (snd (tr ! 0)) \<and>
           ale_assembly demo_env p (fst (tr ! 0)) (m_ddof s1) (snd (tr ! 0))"
    "\<exists>p. assemble demo_env (fst (tr ! 1)) (m_ddof s1) p = Inr (snd (tr ! 1)) \<and>
           ale_assembly demo_env p (fst (tr ! 1)) (m_ddof s1) (snd (tr ! 1))"
    by blast+
  moreover
  from ale_correction_in_every_assembly [OF f, of demo_env]
  have "(1::nat) \<notin> fst ` set [(0::nat, 0::nat)] \<longrightarrow>
          aleCorrected [[1]] [(0, 0)] [[5], [7]] 1 = [[5], [7]] ! 1"
    and "distinct (map fst [(0::nat, 0::nat)]) \<and> (0, 0) \<in> set [(0::nat, 0::nat)] \<longrightarrow>
          aleCorrected [[1]] [(0, 0)] [[5], [7]] 0 = vsub ([[5], [7]] ! 0) ([[1]] ! 0)"
    by blast+
  then have "aleCorrected [[1]] [(0, 0)] [[5], [7]] 1 = [7]"
    "aleCorrected [[1]] [(0, 0)] [[5], [7]] 0 = vsub [5] [1]"
    by simp_all
  ultimately show ?thesis
    using f s' rhs s'' s1 it lk k by (auto simp: demo_maxIters)
qed

subsection \<open>The constant part of the right-hand side\<close>

text \<open>
  C9. In the implicit-nonlinear step the constant part of the right-hand side is computed
  before the solver starts; every iteration of the solver is a call of \<open>assemble\<close> that
  leaves \<open>constRHS\<close> as computed and sets the right-hand side of the system to
  \<open>dt * theta * (stiffness right-hand side at the trial solution) + constRHS\<close>; \<open>constRHS\<close> is
  still the same after the step.
\<close>

theorem constRHS_computed_once:
  assumes "implicitNonlinear E s = Inr s'"
  shows "\<exists>s1 x k s2 tr.
           computeConstRHS s = Inr s1 \<and>
           gsIterative_solve E (maxIters E) 0 (solVector s1) (m_ddof s1) s1 [] = Inr (x, k, s2, tr) \<and>
           length tr = k \<and> constRHS s' = constRHS s1 \<and>
           (\<forall>xt\<in>set tr.
              (\<exists>p. constRHS p = constRHS s1 \<and> assemble E (fst xt) (m_ddof s1) p = Inr (snd xt)) \<and>
              constRHS (snd xt) = constRHS s1 \<and>
              m_system_rhs (snd xt) =
                vadd (vscale (tStep s * opt_Theta s) (stiff_rhs (stiffAssembler (snd xt))))
                  (constRHS s1))"
proof -
  from implicitNonlinear_trace [OF assms] obtain s1 x k s2 tr where
    s1: "computeConstRHS s = Inr s1" and
    it: "gsIterative_solve E (maxIters E) 0 (solVector s1) (m_ddof s1) s1 [] = Inr (x, k, s2, tr)" and
    len: "length tr = k" and c: "constRHS s' = constRHS s1" and
    tr: "\<forall>xt\<in>set tr. \<exists>p. assembly_frame s1 p \<and>
              assemble E (fst xt) (m_ddof s1) p = Inr (snd xt)"
    by blast
  from computeConstRHS_eq_Inr [OF s1] have
    s1eq: "tStep s1 = tStep s" "opt_Theta s1 = opt_Theta s"
    by simp_all
  have "\<forall>xt\<in>set tr.
              (\<exists>p. constRHS p = constRHS s1 \<and> assemble E (fst xt) (m_ddof s1) p = Inr (snd xt)) \<and>
              constRHS (snd xt) = constRHS s1 \<and>
              m_system_rhs (snd xt) =
                vadd (vscale (tStep s * opt_Theta s) (stiff_rhs (stiffAssembler (snd xt))))
                  (constRHS s1)"
  proof
    fix xt
    assume "xt \<in> set tr"
    with tr obtain p where p: "assembly_frame s1 p"
      "assemble E (fst xt) (m_ddof s1) p = Inr (snd xt)"
      by blast
    from p(1) s1eq have pe: "constRHS p = constRHS s1" "tStep p = tStep s"
      "opt_Theta p = opt_Theta s"
      by (simp_all add: assembly_frame_def)
    from assemble_eq_Inr [OF p(2)] have
      "m_system_rhs (snd xt) =
         vadd (vscale (tStep p * opt_Theta p) (stiff_rhs (stiffAssembler (snd xt)))) (constRHS p)"
      and "assembly_frame p (snd xt)"
      by auto
    with pe p(2)
    show "(\<exists>p. constRHS p = constRHS s1 \<and> assemble E (fst xt) (m_ddof s1) p = Inr (snd xt)) \<and>
              constRHS (snd xt) = constRHS s1 \<and>
              m_system_rhs (snd xt) =
                vadd (vscale (tStep s * opt_Theta s) (stiff_rhs (stiffAssembler (snd xt))))
                  (constRHS s1)"
      by (auto simp: assembly_frame_def)
  qed
  with s1 it len c show ?thesis by blast
qed

theorem constRHS_computed_once_witness:
  "\<exists>s' s1 x s2 tr.
      implicitNonlinear demo_env demo_step = Inr s' \<and>
      computeConstRHS demo_step = Inr s1 \<and>
      gsIterative_solve demo_env 2 0 (solVector s1) (m_ddof s1) s1 [] = Inr (x, 2, s2, tr) \<and>
      length tr = 2 \<and>
      constRHS s1 = [5, 1 / 100] \<and> constRHS s' = [5, 1 / 100] \<and>
      constRHS (snd (tr ! 0)) = [5, 1 / 100] \<and> constRHS (snd (tr ! 1)) = [5, 1 / 100] \<and>
      m_system_rhs (snd (tr ! 0)) =
        vadd (vscale (1 / 100 * (1 / 2)) (stiff_rhs (stiffAssembler (snd (tr ! 0))))) [5, 1 / 100] \<and>
      m_system_rhs (snd (tr ! 1)) =
        vadd (vscale (1 / 100 * (1 / 2)) (stiff_rhs (stiffAssembler (snd (tr ! 1))))) [5, 1 / 100]"
proof -
  from demo_implicitNonlinear_ok obtain s' where
    s': "implicitNonlinear demo_env demo_step = Inr s'" by blast
  from constRHS_computed_once [OF s'] obtain s1 x k s2 tr where
    s1: "computeConstRHS demo_step = Inr s1" and
    it: "gsIterative_solve demo_env (maxIters demo_env) 0 (solVector s1) (m_ddof s1) s1 [] =
           Inr (x, k, s2, tr)" and
    lk: "length tr = k" and c: "constRHS s' = constRHS s1" and
    all: "\<forall>xt\<in>set tr.
            (\<exists>p. constRHS p = constRHS s1 \<and>
                 assemble demo_env (fst xt) (m_ddof s1) p = Inr (snd xt)) \<and>
            constRHS (snd xt) = constRHS s1 \<and>
            m_system_rhs (snd xt) =
              vadd (vscale (tStep demo_step * opt_Theta demo_step)
                      (stiff_rhs (stiffAssembler (snd xt))))
                (constRHS s1)"
    by blast
  from demo_computeConstRHS s1 have c1: "constRHS s1 = [5, 1 / 100]" by auto
  from gsIterative_solve_never_converged [OF demo_never_converged it]
  have k: "k = 2" by (simp add: demo_maxIters)
  with lk have "tr ! 0 \<in> set tr" "tr ! 1 \<in> set tr" by simp_all
  with all c1 have
    "constRHS (snd (tr ! 0)) = [5, 1 / 100]" "constRHS (snd (tr ! 1)) = [5, 1 / 100]"
    "m_system_rhs (snd (tr ! 0)) =
        vadd (vscale (1 / 100 * (1 / 2)) (stiff_rhs (stiffAssembler (snd (tr ! 0))))) [5, 1 / 100]"
    "m_system_rhs (snd (tr ! 1)) =
        vadd (vscale (1 / 100 * (1 / 2)) (stiff_rhs (stiffAssembler (snd (tr ! 1))))) [5, 1 / 100]"
    by (simp_all add: demo_step_simps)
  with s' s1 it lk k c c1 show ?thesis
    by (auto simp: demo_maxIters)
qed

section \<open>The coupling loop\<close>

lemma aleVelocityLoop_nth:
  "aleVelocityLoop dt disp ps vel geo = Inr (vel', geo') \<Longrightarrow> distinct ps \<Longrightarrow>
     length vel' = length vel \<and>
     (\<forall>p<length vel. vel' ! p =
        (if p \<in> set ps then map (\<lambda>x. x / dt) (vsub (vel ! p) (disp ! p)) else vel ! p))"
proof (induction ps arbitrary: vel geo)
  case Nil
  then show ?case by simp
next
  case (Cons q ps)
  let ?d = "vsub (vel ! q) (disp ! q)"
  let ?vel1 = "vel[q := map (\<lambda>x. x / dt) ?d]"
  from Cons.prems have q: "q < length vel" "q \<notin> set ps" "distinct ps"
    and r: "aleVelocityLoop dt disp ps ?vel1 (geo[q + 3 := vadd (geo ! (q + 3)) ?d]) = Inr (vel', geo')"
    by (auto simp: Let_def split: if_splits)
  from Cons.IH [OF r q(3)] have
    len: "length vel' = length vel" and
    nth: "\<forall>p<length vel. vel' ! p =
        (if p \<in> set ps then map (\<lambda>x. x / dt) (vsub (?vel1 ! p) (disp ! p)) else ?vel1 ! p)"
    by simp_all
  have "\<forall>p<length vel. vel' ! p =
        (if p \<in> set (q # ps) then map (\<lambda>x. x / dt) (vsub (vel ! p) (disp ! p)) else vel ! p)"
  proof (intro allI impI)
    fix p
    assume p: "p < length vel"
    show "vel' ! p =
        (if p \<in> set (q # ps) then map (\<lambda>x. x / dt) (vsub (vel ! p) (disp ! p)) else vel ! p)"
    proof (cases "p = q")
      case True
      with nth p q show ?thesis by simp
    next
      case False
      with nth p show ?thesis by simp
    qed
  qed
  with len show ?case by simp
qed

lemma coupler_body_eq_Inr:
  assumes "coupler_body E P st = Inr st'"
  shows "iteration_with_step E st st' (stepSize P (simTime st)) \<and>
         inflowFixedDofs st' =
           (if simTime st < 2
            then vscale (rampFactor (simTime st) (stepSize P (simTime st))) (inflowDDoFs P)
            else inflowFixedDofs st) \<and>
         dispALE st' = meshDisplacement E (aleNewton st')"
proof -
  let ?dt = "stepSize P (simTime st)"
  let ?inflow = "if simTime st < 2 then vscale (rampFactor (simTime st) ?dt) (inflowDDoFs P)
                 else inflowFixedDofs st"
  let ?dd0 = "beamDisplacement E (elTimeSolver st)"
  let ?el = "beamStep E ?dt (elTimeSolver st)"
  let ?db = "beamDisplacement E ?el"
  let ?dd = "?dd0[0 := vsub (?db ! 0) (?dd0 ! 0)]"
  let ?ale = "meshSolve E ?dd (aleNewton st)"
  let ?vel0 = "meshDisplacement E ?ale"
  from assms have ne: "\<not> (?dd0 = [] \<or> ?db = [])"
    by (auto simp: coupler_body_def Let_def split: if_splits)
  with assms obtain vel geo where
    loop: "aleVelocityLoop ?dt (dispALE st) [0..<length ?vel0] ?vel0 (flowPatches st) = Inr (vel, geo)"
    by (cases "aleVelocityLoop ?dt (dispALE st) [0..<length ?vel0] ?vel0 (flowPatches st)")
       (auto simp: coupler_body_def Let_def)
  with assms ne obtain ns' where
    fl: "flowStep E ?dt True ?inflow vel geo (nsTimeSolver st) = Inr ns'"
    by (cases "flowStep E ?dt True ?inflow vel geo (nsTimeSolver st)")
       (auto simp: coupler_body_def Let_def)
  from assms ne loop fl have st':
    "st' = st\<lparr>simTime := simTime st + ?dt, numTimeStep := numTimeStep st + 1,
              elTimeSolver := ?el, aleNewton := ?ale, nsTimeSolver := ns',
              dispBeam := ?db, dispALE := ?vel0, velALE := vel,
              flowPatches := geo, inflowFixedDofs := ?inflow,
              calls := calls st @ [BeamStep ?dt, MeshSolve, FlowStep ?dt True ?vel0]\<rparr>"
    by (auto simp: coupler_body_def Let_def)
  from aleVelocityLoop_nth [OF loop] have
    "length vel = length ?vel0"
    "\<forall>p<length ?vel0. vel ! p = map (\<lambda>x. x / ?dt) (vsub (?vel0 ! p) (dispALE st ! p))"
    by simp_all
  with fl show ?thesis
    by (simp add: st' iteration_with_step_def)
qed

lemma cos_less_one:
  assumes "0 < x" and "x < 2 * pi"
  shows "cos x < 1"
proof -
  have "cos x \<noteq> 1"
  proof
    assume "cos x = 1"
    then obtain n :: int where n: "x = of_int n * 2 * pi"
      using cos_one_2pi_int by blast
    with assms have "0 < of_int n * (2 * pi)" "of_int n * (2 * pi) < 1 * (2 * pi)"
      by (simp_all add: mult.assoc)
    then have "0 < (of_int n :: real)" "(of_int n :: real) < 1"
      by (simp_all add: zero_less_mult_iff)
    then have "0 < n" "n < 1" by simp_all
    then show False by linarith
  qed
  moreover have "cos x \<le> 1" by simp
  ultimately show ?thesis by linarith
qed

lemma rampFactor_values:
  "t + dt = 0 \<Longrightarrow> rampFactor t dt = 0"
  "t + dt = 2 \<Longrightarrow> rampFactor t dt = 1"
  by (simp_all add: rampFactor_def)

lemma rampFactor_pos:
  assumes "0 < dt" and "dt < 4"
  shows "0 < rampFactor 0 dt"
proof -
  have "0 < pi * dt / 2" using assms by simp
  moreover have "pi * dt / 2 < 2 * pi" using assms by simp
  ultimately have "cos (pi * dt / 2) < 1" by (rule cos_less_one)
  then show ?thesis by (simp add: rampFactor_def)
qed

lemma coupler_loop_progress:
  "coupler_loop E P n st = (out, st') \<Longrightarrow> st' \<noteq> st \<Longrightarrow>
     simTime st < timeSpan P \<and> checkSolution E (dispALE st) = - 1"
  by (cases n) (auto split: if_splits sum.splits)

text \<open>
  With a positive step size the loop ends: every iteration advances the simulation time
  by at least the smaller of the two step sizes, so enough iterations reach the time span
  (or end the loop earlier).
\<close>

lemma coupler_loop_enough_fuel:
  assumes "0 < timeStep P"
  shows "timeSpan P - simTime st \<le> real k * min (1 / 10) (timeStep P) \<Longrightarrow>
           fst (coupler_loop E P (Suc k) st) \<noteq> OutOfFuel"
proof (induction k arbitrary: st)
  case 0
  then show ?case by simp
next
  case (Suc k)
  let ?m = "min (1 / 10) (timeStep P)"
  show ?case
  proof (cases "coupler_body E P st")
    case (Inl e)
    then show ?thesis by simp
  next
    case (Inr st1)
    from coupler_body_eq_Inr [OF Inr]
    have "simTime st1 = simTime st + stepSize P (simTime st)"
      by (simp add: iteration_with_step_def)
    moreover have "?m \<le> stepSize P (simTime st)"
    proof (cases "warmUp P \<and> simTime st < 2")
      case True
      then have "stepSize P (simTime st) = 1 / 10" by (simp add: stepSize_def)
      moreover have "?m \<le> 1 / 10" by (rule min.cobounded1)
      ultimately show ?thesis by (simp only:)
    next
      case False
      then have "stepSize P (simTime st) = timeStep P" by (auto simp: stepSize_def)
      moreover have "?m \<le> timeStep P" by (rule min.cobounded2)
      ultimately show ?thesis by (simp only:)
    qed
    ultimately have "timeSpan P - simTime st1 \<le> timeSpan P - simTime st - ?m"
      by simp
    also have "\<dots> \<le> real (Suc k) * ?m - ?m"
      using Suc.prems by simp
    also have "\<dots> = real k * ?m"
      by (simp add: algebra_simps)
    finally have "fst (coupler_loop E P (Suc k) st1) \<noteq> OutOfFuel"
      by (rule Suc.IH)
    with Inr show ?thesis by simp
  qed
qed

lemma coupler_loop_terminates:
  assumes "0 < timeStep P"
  shows "\<exists>n. fst (coupler_loop E P n st) \<noteq> OutOfFuel"
proof -
  let ?m = "min (1 / 10) (timeStep P)"
  have "0 < ?m" using assms by simp
  then obtain k :: nat where "timeSpan P - simTime st < real k * ?m"
    using reals_Archimedean3 by blast
  then have "timeSpan P - simTime st \<le> real k * ?m" by simp
  from coupler_loop_enough_fuel [OF assms this] show ?thesis by blast
qed

lemma coupler_loop_breakdown:
  "simTime st < timeSpan P \<Longrightarrow> checkSolution E (dispALE st) \<noteq> - 1 \<Longrightarrow>
     coupler_loop E P (Suc n) st = (MeshBreakdown, st)"
  by simp

subsection \<open>The instance\<close>

lemma demo_coupler_body:
  "coupler_body demo_cenv P (demo_cstate\<lparr>simTime := t\<rparr>) =
     Inr (demo_cstate\<lparr>simTime := t + stepSize P t, numTimeStep := 1,
           elTimeSolver := Suc 0, aleNewton := [[- 1]], nsTimeSolver := Suc 0,
           dispBeam := [[1]], dispALE := [[- 1]],
           velALE := [[- 1 / stepSize P t]],
           flowPatches := [[0], [0], [0], [- 1]],
           inflowFixedDofs := (if t < 2 then vscale (rampFactor t (stepSize P t)) (inflowDDoFs P)
                               else [0]),
           calls := [BeamStep (stepSize P t), MeshSolve, FlowStep (stepSize P t) True [[- 1]]]\<rparr>)"
  by (simp add: coupler_body_def demo_cenv_def demo_cstate_def Let_def vsub_def vadd_def)

lemma demo_params_simps:
  "stepSize demo_params t = 1 / 100" "timeSpan demo_params = 3" "inflowDDoFs demo_params = [1]"
  "stepSize demo_warm t = (if t < 2 then 1 / 10 else 1 / 100)" "inflowDDoFs demo_warm = [1]"
  "warmUp demo_warm" "\<not> warmUp demo_params" "timeStep demo_warm = 1 / 100"
  "timeStep demo_params = 1 / 100"
  by (simp_all add: demo_params_def demo_warm_def stepSize_def)

lemma demo_cstate_simps:
  "simTime demo_cstate = 0" "dispALE demo_cstate = [[0]]" "calls demo_cstate = []"
  "demo_cstate\<lparr>simTime := 0\<rparr> = demo_cstate"
  by (simp_all add: demo_cstate_def)

lemma demo_check_simps:
  "checkSolution demo_cenv [[0]] = - 1" "checkSolution demo_cenv [[- 1]] = 0"
  by (simp_all add: demo_cenv_def demo_check_def)

lemma demo_coupler_run:
  "coupler_loop demo_cenv demo_params 2 demo_cstate =
     (MeshBreakdown,
      demo_cstate\<lparr>simTime := 1 / 100, numTimeStep := 1,
        elTimeSolver := Suc 0, aleNewton := [[- 1]], nsTimeSolver := Suc 0,
        dispBeam := [[1]], dispALE := [[- 1]], velALE := [[- 100]],
        flowPatches := [[0], [0], [0], [- 1]],
        inflowFixedDofs := [rampFactor 0 (1 / 100)],
        calls := [BeamStep (1 / 100), MeshSolve, FlowStep (1 / 100) True [[- 1]]]\<rparr>)"
proof -
  have "coupler_loop demo_cenv demo_params 2 (demo_cstate\<lparr>simTime := 0\<rparr>) =
          (MeshBreakdown,
           demo_cstate\<lparr>simTime := 0 + stepSize demo_params 0, numTimeStep := 1,
             elTimeSolver := Suc 0, aleNewton := [[- 1]], nsTimeSolver := Suc 0,
             dispBeam := [[1]], dispALE := [[- 1]],
             velALE := [[- 1 / stepSize demo_params 0]],
             flowPatches := [[0], [0], [0], [- 1]],
             inflowFixedDofs := (if (0::real) < 2
                then vscale (rampFactor 0 (stepSize demo_params 0)) (inflowDDoFs demo_params)
                else [0]),
             calls := [BeamStep (stepSize demo_params 0), MeshSolve,
                       FlowStep (stepSize demo_params 0) True [[- 1]]]\<rparr>)"
    unfolding numeral_2_eq_2 coupler_loop.simps demo_coupler_body
    by (simp add: demo_params_simps demo_check_simps demo_cstate_def)
  then show ?thesis
    by (simp add: demo_cstate_simps demo_params_simps vscale_def)
qed

subsection \<open>The mesh check\<close>

text \<open>
  C1, as the code has it. The mesh check stands at the top of the loop body and reads the
  ALE displacement that the previous iteration left: when it reports a patch, the loop
  ends at once, before any solver of that iteration is called, and the state is
  untouched; whenever a run got past its first state, the check had passed there. The ALE
  displacement that an iteration computes is not checked before the flow step of the same
  iteration: that flow step is the last call of the iteration and runs with the new
  displacement.
\<close>

theorem mesh_check_at_loop_head:
  "(simTime st < timeSpan P \<and> checkSolution E (dispALE st) \<noteq> - 1 \<longrightarrow>
      coupler_loop E P (Suc n) st = (MeshBreakdown, st)) \<and>
   (coupler_loop E P n st = (out, st') \<and> st' \<noteq> st \<longrightarrow>
      simTime st < timeSpan P \<and> checkSolution E (dispALE st) = - 1) \<and>
   (coupler_body E P st = Inr st1 \<longrightarrow>
      dispALE st1 = meshDisplacement E (aleNewton st1) \<and>
      calls st1 = calls st @
        [BeamStep (stepSize P (simTime st)), MeshSolve,
         FlowStep (stepSize P (simTime st)) True (dispALE st1)])"
proof -
  have "simTime st < timeSpan P \<and> checkSolution E (dispALE st) \<noteq> - 1 \<longrightarrow>
      coupler_loop E P (Suc n) st = (MeshBreakdown, st)"
    using coupler_loop_breakdown by blast
  moreover have "coupler_loop E P n st = (out, st') \<and> st' \<noteq> st \<longrightarrow>
      simTime st < timeSpan P \<and> checkSolution E (dispALE st) = - 1"
    using coupler_loop_progress by blast
  moreover have "coupler_body E P st = Inr st1 \<longrightarrow>
      dispALE st1 = meshDisplacement E (aleNewton st1) \<and>
      calls st1 = calls st @
        [BeamStep (stepSize P (simTime st)), MeshSolve,
         FlowStep (stepSize P (simTime st)) True (dispALE st1)]"
    using coupler_body_eq_Inr [of E P st st1] by (simp add: iteration_with_step_def)
  ultimately show ?thesis by blast
qed

theorem mesh_check_at_loop_head_witness:
  "simTime (demo_cstate\<lparr>dispALE := [[- 1]]\<rparr>) < timeSpan demo_params \<and>
   checkSolution demo_cenv (dispALE (demo_cstate\<lparr>dispALE := [[- 1]]\<rparr>)) \<noteq> - 1 \<and>
   coupler_loop demo_cenv demo_params 1 (demo_cstate\<lparr>dispALE := [[- 1]]\<rparr>) =
     (MeshBreakdown, demo_cstate\<lparr>dispALE := [[- 1]]\<rparr>) \<and>
   (\<exists>st1. coupler_body demo_cenv demo_params demo_cstate = Inr st1 \<and>
      calls st1 = [BeamStep (1 / 100), MeshSolve, FlowStep (1 / 100) True (dispALE st1)]) \<and>
   snd (coupler_loop demo_cenv demo_params 2 demo_cstate) \<noteq> demo_cstate \<and>
   simTime demo_cstate < timeSpan demo_params \<and>
   checkSolution demo_cenv (dispALE demo_cstate) = - 1"
proof -
  have ne: "snd (coupler_loop demo_cenv demo_params 2 demo_cstate) \<noteq> demo_cstate"
  proof
    assume "snd (coupler_loop demo_cenv demo_params 2 demo_cstate) = demo_cstate"
    then have "calls (snd (coupler_loop demo_cenv demo_params 2 demo_cstate)) = calls demo_cstate"
      by simp
    then show False by (simp add: demo_coupler_run demo_cstate_simps)
  qed
  from mesh_check_at_loop_head [of demo_cstate demo_params demo_cenv 2
        "fst (coupler_loop demo_cenv demo_params 2 demo_cstate)"
        "snd (coupler_loop demo_cenv demo_params 2 demo_cstate)"] ne
  have pr: "simTime demo_cstate < timeSpan demo_params \<and>
        checkSolution demo_cenv (dispALE demo_cstate) = - 1"
    by simp
  let ?st = "demo_cstate\<lparr>dispALE := [[- 1]]\<rparr>"
  have a: "simTime ?st < timeSpan demo_params"
    by (simp add: demo_cstate_simps demo_params_simps)
  have b: "checkSolution demo_cenv (dispALE ?st) \<noteq> - 1"
    by (simp add: demo_check_simps)
  from mesh_check_at_loop_head [of ?st demo_params demo_cenv 0] a b
  have c: "coupler_loop demo_cenv demo_params 1 ?st = (MeshBreakdown, ?st)"
    by simp
  from demo_coupler_body [of demo_params 0] obtain st1 where
    st1: "coupler_body demo_cenv demo_params demo_cstate = Inr st1"
    by (simp add: demo_cstate_simps)
  from mesh_check_at_loop_head [of demo_cstate demo_params demo_cenv _ _ _ st1] st1
  have "calls st1 = [BeamStep (1 / 100), MeshSolve, FlowStep (1 / 100) True (dispALE st1)]"
    by (simp add: demo_cstate_simps demo_params_simps)
  with a b c st1 ne pr show ?thesis by blast
qed

text \<open>
  The claim C1 as stated fails: in the run below the mesh solver returns a displacement
  that the check rejects. The flow step of the first iteration runs with it; the loop
  ends only at the check of the second iteration.
\<close>

theorem flow_step_on_invalid_mesh_counterexample:
  "checkSolution demo_cenv (dispALE demo_cstate) = - 1 \<and>
   checkSolution demo_cenv [[- 1]] \<noteq> - 1 \<and>
   fst (coupler_loop demo_cenv demo_params 2 demo_cstate) = MeshBreakdown \<and>
   calls (snd (coupler_loop demo_cenv demo_params 2 demo_cstate)) =
     [BeamStep (1 / 100), MeshSolve, FlowStep (1 / 100) True [[- 1]]]"
  by (simp add: demo_coupler_run demo_cstate_simps demo_check_simps)

subsection \<open>Step size and inflow ramp\<close>

text \<open>
  C6. In an iteration entered with warm-up switched on and a simulation time below \<open>2\<close>
  the step size is \<open>0.1\<close>; in every other iteration it is the configured step size. The
  beam step and the flow step receive it, the ALE velocity is the difference of the new
  and the old ALE displacement divided by it, and the simulation time advances by it.
  (The mesh solver itself takes no step size.)
\<close>

theorem warm_up_step_size:
  assumes "coupler_body E P st = Inr st'"
  shows "(warmUp P \<and> simTime st < 2 \<longrightarrow> iteration_with_step E st st' (1 / 10)) \<and>
         (\<not> warmUp P \<or> 2 \<le> simTime st \<longrightarrow> iteration_with_step E st st' (timeStep P))"
  using coupler_body_eq_Inr [OF assms] by (auto simp: stepSize_def)

theorem warm_up_step_size_witness:
  "(\<exists>st'. coupler_body demo_cenv demo_warm demo_cstate = Inr st' \<and>
      warmUp demo_warm \<and> simTime demo_cstate < 2 \<and>
      calls st' = [BeamStep (1 / 10), MeshSolve, FlowStep (1 / 10) True [[- 1]]] \<and>
      velALE st' = [[- 10]] \<and> simTime st' = 1 / 10) \<and>
   (\<exists>st'. coupler_body demo_cenv demo_warm (demo_cstate\<lparr>simTime := 2\<rparr>) = Inr st' \<and>
      calls st' = [BeamStep (1 / 100), MeshSolve, FlowStep (1 / 100) True [[- 1]]] \<and>
      velALE st' = [[- 100]] \<and> simTime st' = 2 + 1 / 100) \<and>
   (\<exists>st'. coupler_body demo_cenv demo_params demo_cstate = Inr st' \<and>
      \<not> warmUp demo_params \<and>
      calls st' = [BeamStep (1 / 100), MeshSolve, FlowStep (1 / 100) True [[- 1]]] \<and>
      velALE st' = [[- 100]] \<and> simTime st' = 1 / 100)"
proof -
  from demo_coupler_body [of demo_warm 0] obtain s1 where
    s1: "coupler_body demo_cenv demo_warm demo_cstate = Inr s1" and
    d1: "dispALE s1 = [[- 1]]" "velALE s1 = [[- 10]]"
    by (simp add: demo_cstate_simps demo_params_simps)
  from warm_up_step_size [OF s1] have "iteration_with_step demo_cenv demo_cstate s1 (1 / 10)"
    by (simp add: demo_params_simps demo_cstate_simps)
  with d1 have c1: "calls s1 = [BeamStep (1 / 10), MeshSolve, FlowStep (1 / 10) True [[- 1]]]"
    "simTime s1 = 1 / 10"
    by (simp_all add: iteration_with_step_def demo_cstate_simps)
  from demo_coupler_body [of demo_warm 2] obtain s2 where
    s2: "coupler_body demo_cenv demo_warm (demo_cstate\<lparr>simTime := 2\<rparr>) = Inr s2" and
    d2: "dispALE s2 = [[- 1]]" "velALE s2 = [[- 100]]"
    by (simp add: demo_params_simps)
  from warm_up_step_size [OF s2]
  have "iteration_with_step demo_cenv (demo_cstate\<lparr>simTime := 2\<rparr>) s2 (1 / 100)"
    by (simp add: demo_params_simps)
  with d2 have c2: "calls s2 = [BeamStep (1 / 100), MeshSolve, FlowStep (1 / 100) True [[- 1]]]"
    "simTime s2 = 2 + 1 / 100"
    by (simp_all add: iteration_with_step_def demo_cstate_simps)
  from demo_coupler_body [of demo_params 0] obtain s3 where
    s3: "coupler_body demo_cenv demo_params demo_cstate = Inr s3" and
    d3: "dispALE s3 = [[- 1]]" "velALE s3 = [[- 100]]"
    by (simp add: demo_cstate_simps demo_params_simps)
  from warm_up_step_size [OF s3] have "iteration_with_step demo_cenv demo_cstate s3 (1 / 100)"
    by (simp add: demo_params_simps)
  with d3 have c3: "calls s3 = [BeamStep (1 / 100), MeshSolve, FlowStep (1 / 100) True [[- 1]]]"
    "simTime s3 = 1 / 100"
    by (simp_all add: iteration_with_step_def demo_cstate_simps)
  from s1 d1 c1 s2 d2 c2 s3 d3 c3 show ?thesis
    by (simp add: demo_params_simps demo_cstate_simps)
qed

text \<open>
  C5, as the code has it. In an iteration entered at a simulation time \<open>t < 2\<close> with step
  size \<open>dt\<close>, the inflow fixed degrees of freedom are set to the saved inflow values times
  \<open>(1 - cos (pi * (t + dt) / 2)) / 2\<close>: the ramp is evaluated at the time the step ends,
  which is the simulation time after the iteration, and the flow step of the iteration
  receives these values. The factor is \<open>0\<close> where
  \<open>t + dt = 0\<close> and \<open>1\<close> where \<open>t + dt = 2\<close>; at \<open>t = 0\<close> it is positive for every step size
  between \<open>0\<close> and \<open>4\<close>. In an iteration entered at \<open>t \<ge> 2\<close> the inflow values are not
  touched.
\<close>

theorem inflow_ramp_at_end_of_step:
  assumes "coupler_body E P st = Inr st'"
  shows "(simTime st < 2 \<longrightarrow>
            inflowFixedDofs st' =
              vscale ((1 - cos (pi * (simTime st + stepSize P (simTime st)) / 2)) / 2)
                (inflowDDoFs P) \<and>
            inflowFixedDofs st' = vscale ((1 - cos (pi * simTime st' / 2)) / 2) (inflowDDoFs P)) \<and>
         (2 \<le> simTime st \<longrightarrow> inflowFixedDofs st' = inflowFixedDofs st) \<and>
         flowStep E (stepSize P (simTime st)) True (inflowFixedDofs st') (velALE st')
           (flowPatches st') (nsTimeSolver st) = Inr (nsTimeSolver st') \<and>
         rampFactor t dt = (1 - cos (pi * (t + dt) / 2)) / 2 \<and>
         (t + dt = 0 \<longrightarrow> rampFactor t dt = 0) \<and>
         (t + dt = 2 \<longrightarrow> rampFactor t dt = 1) \<and>
         (0 < dt \<and> dt < 4 \<longrightarrow> 0 < rampFactor 0 dt)"
  using coupler_body_eq_Inr [OF assms] rampFactor_values [of t dt] rampFactor_pos [of dt]
  by (auto simp: iteration_with_step_def rampFactor_def)

theorem inflow_ramp_at_end_of_step_witness:
  "(\<exists>st'. coupler_body demo_cenv demo_params (demo_cstate\<lparr>simTime := 1\<rparr>) = Inr st' \<and>
      inflowFixedDofs st' = [(1 - cos (pi * (1 + 1 / 100) / 2)) / 2]) \<and>
   (\<exists>st'. coupler_body demo_cenv demo_params (demo_cstate\<lparr>simTime := 199 / 100\<rparr>) = Inr st' \<and>
      simTime st' = 2 \<and> inflowFixedDofs st' = [1]) \<and>
   (\<exists>st'. coupler_body demo_cenv demo_params (demo_cstate\<lparr>simTime := 2\<rparr>) = Inr st' \<and>
      inflowFixedDofs st' = [0]) \<and>
   rampFactor (- 1) 1 = 0 \<and> rampFactor 1 1 = 1 \<and> 0 < rampFactor 0 (1 / 100)"
proof -
  from demo_coupler_body [of demo_params 1] obtain s1 where
    s1: "coupler_body demo_cenv demo_params (demo_cstate\<lparr>simTime := 1\<rparr>) = Inr s1"
    by simp
  from inflow_ramp_at_end_of_step [OF s1]
  have i1: "inflowFixedDofs s1 = [(1 - cos (pi * (1 + 1 / 100) / 2)) / 2]"
    by (simp add: demo_params_simps vscale_def)
  from demo_coupler_body [of demo_params 2] obtain s2 where
    s2: "coupler_body demo_cenv demo_params (demo_cstate\<lparr>simTime := 2\<rparr>) = Inr s2"
    by simp
  from inflow_ramp_at_end_of_step [OF s2]
  have i2: "inflowFixedDofs s2 = [0]"
    by (simp add: demo_cstate_def)
  from demo_coupler_body [of demo_params "199 / 100"] obtain s3 where
    s3: "coupler_body demo_cenv demo_params (demo_cstate\<lparr>simTime := 199 / 100\<rparr>) = Inr s3" and
    t3: "simTime s3 = 2"
    by (simp add: demo_params_simps)
  from inflow_ramp_at_end_of_step [OF s3]
  have i3: "inflowFixedDofs s3 = [1]"
    by (simp add: demo_params_simps vscale_def t3)
  from inflow_ramp_at_end_of_step [OF s1, of "- 1" 1]
  have r0: "rampFactor (- 1) 1 = 0" by simp
  from inflow_ramp_at_end_of_step [OF s1, of 1 1]
  have r1: "rampFactor 1 1 = 1" by simp
  from inflow_ramp_at_end_of_step [OF s1, of 0 "1 / 100"]
  have r2: "0 < rampFactor 0 (1 / 100)" by simp
  from s1 i1 s2 i2 s3 t3 i3 r0 r1 r2 show ?thesis by blast
qed

text \<open>
  The claim C5 as stated fails at simulation time \<open>0\<close>: the first iteration of the run
  with the default step size multiplies the saved inflow value \<open>1\<close> by the factor for the
  time \<open>0.01\<close>, which is not \<open>0\<close>.
\<close>

theorem inflow_factor_at_time_zero_counterexample:
  "simTime demo_cstate = 0 \<and> inflowDDoFs demo_params = [1] \<and>
   \<not> isl (coupler_body demo_cenv demo_params demo_cstate) \<and>
   inflowFixedDofs (projr (coupler_body demo_cenv demo_params demo_cstate)) =
     [rampFactor 0 (1 / 100)] \<and>
   rampFactor 0 (1 / 100) \<noteq> 0"
proof -
  have "0 < rampFactor 0 (1 / 100)"
    by (rule rampFactor_pos) simp_all
  moreover have "coupler_body demo_cenv demo_params (demo_cstate\<lparr>simTime := 0\<rparr>) =
     Inr (demo_cstate\<lparr>simTime := 0 + stepSize demo_params 0, numTimeStep := 1,
           elTimeSolver := Suc 0, aleNewton := [[- 1]], nsTimeSolver := Suc 0,
           dispBeam := [[1]], dispALE := [[- 1]],
           velALE := [[- 1 / stepSize demo_params 0]],
           flowPatches := [[0], [0], [0], [- 1]],
           inflowFixedDofs := (if (0::real) < 2
              then vscale (rampFactor 0 (stepSize demo_params 0)) (inflowDDoFs demo_params)
              else [0]),
           calls := [BeamStep (stepSize demo_params 0), MeshSolve,
                     FlowStep (stepSize demo_params 0) True [[- 1]]]\<rparr>)"
    by (rule demo_coupler_body)
  ultimately show ?thesis
    by (simp add: demo_cstate_simps demo_params_simps vscale_def)
qed

end
